theory Spec2Isabelle
  imports Main
begin

section \<open>Interval arithmetic (packages/availability/src/intervals.ts)\<close>

text \<open>
  A JavaScript \<open>Date\<close> is modelled by its millisecond timestamp, an \<open>int\<close>
  (valid dates only; an Invalid Date, whose timestamp is NaN, is outside the model).
  An interval is the half-open range from \<open>i_start\<close> (the source's \<open>start\<close>) to
  \<open>i_end\<close> (the source's \<open>end\<close>).
\<close>

record Interval =
  i_start :: int
  i_end :: int

definition cloneInterval :: "Interval \<Rightarrow> Interval" where
  "cloneInterval interval = \<lparr>i_start = i_start interval, i_end = i_end interval\<rparr>"

definition intervalsOverlap :: "Interval \<Rightarrow> Interval \<Rightarrow> bool" where
  "intervalsOverlap a b = (i_start a < i_end b \<and> i_start b < i_end a)"

text \<open>
  \<open>Array.prototype.sort\<close> with a comparator: a stable sort, here by insertion. An
  element goes in front of the first element it does not compare greater than, so
  elements that compare equal keep their input order.
\<close>

fun insertBy :: "('a \<Rightarrow> 'a \<Rightarrow> int) \<Rightarrow> 'a \<Rightarrow> 'a list \<Rightarrow> 'a list" where
  "insertBy cmp x [] = [x]"
| "insertBy cmp x (y # ys) = (if cmp x y \<le> 0 then x # y # ys else y # insertBy cmp x ys)"

fun jsSort :: "('a \<Rightarrow> 'a \<Rightarrow> int) \<Rightarrow> 'a list \<Rightarrow> 'a list" where
  "jsSort cmp [] = []"
| "jsSort cmp (x # xs) = insertBy cmp x (jsSort cmp xs)"

text \<open>The comparator of \<open>mergeIntervals\<close>: by start, then by end.\<close>

definition compareStartEnd :: "Interval \<Rightarrow> Interval \<Rightarrow> int" where
  "compareStartEnd a b =
     (let startDiff = i_start a - i_start b
      in if startDiff \<noteq> 0 then startDiff else i_end a - i_end b)"

text \<open>The comparator of \<open>subtractIntervals\<close>: by start only.\<close>

definition compareStart :: "Interval \<Rightarrow> Interval \<Rightarrow> int" where
  "compareStart a b = i_start a - i_start b"

text \<open>
  The sweep of \<open>mergeIntervals\<close>: \<open>merged\<close> is the output array, whose last element
  is extended in place or which gets a new element pushed.
\<close>

fun mergeLoop :: "Interval list \<Rightarrow> Interval list \<Rightarrow> Interval list" where
  "mergeLoop merged [] = merged"
| "mergeLoop merged (current # rest) =
     (let lastMerged = last merged
      in if i_start current \<le> i_end lastMerged
         then (if i_end current > i_end lastMerged
               then mergeLoop (butlast merged @ [lastMerged\<lparr>i_end := i_end current\<rparr>]) rest
               else mergeLoop merged rest)
         else mergeLoop (merged @ [cloneInterval current]) rest)"

definition mergeIntervals :: "Interval list \<Rightarrow> Interval list" where
  "mergeIntervals intervals =
     (if length intervals = 0 then []
      else
        let validIntervals =
              map cloneInterval (filter (\<lambda>interval. i_start interval < i_end interval) intervals)
        in if length validIntervals = 0 then []
           else
             let sortedIntervals = jsSort compareStartEnd validIntervals
             in mergeLoop [cloneInterval (hd sortedIntervals)] (tl sortedIntervals))"

text \<open>
  \<open>subtractIntervals\<close>: \<open>subtractFromRemaining sub remaining\<close> is the innermost loop
  (one \<open>sub\<close> against every piece that remains), \<open>subtractAll\<close> the loop over the
  merged subtrahends for one \<open>from\<close> interval.
\<close>

fun subtractFromRemaining :: "Interval \<Rightarrow> Interval list \<Rightarrow> Interval list" where
  "subtractFromRemaining sub [] = []"
| "subtractFromRemaining sub (rem # remaining) =
     (if \<not> intervalsOverlap rem sub then rem # subtractFromRemaining sub remaining
      else
        (if i_start rem < i_start sub
         then [\<lparr>i_start = i_start rem, i_end = i_start sub\<rparr>] else []) @
        (if i_end rem > i_end sub
         then [\<lparr>i_start = i_end sub, i_end = i_end rem\<rparr>] else []) @
        subtractFromRemaining sub remaining)"

fun subtractAll :: "Interval list \<Rightarrow> Interval list \<Rightarrow> Interval list" where
  "subtractAll remaining [] = remaining"
| "subtractAll remaining (sub # subs) = subtractAll (subtractFromRemaining sub remaining) subs"

definition subtractIntervals :: "Interval list \<Rightarrow> Interval list \<Rightarrow> Interval list" where
  "subtractIntervals from subtract =
     (if length from = 0 then []
      else if length subtract = 0 then mergeIntervals from
      else
        let mergedFrom = mergeIntervals from;
            mergedSubtract = mergeIntervals subtract;
            result = concat (map (\<lambda>interval. subtractAll [cloneInterval interval] mergedSubtract)
                                 mergedFrom)
        in jsSort compareStart result)"

text \<open>
  \<open>intersectIntervals\<close>: the two-pointer loop; the arguments are the parts of
  \<open>mergedA\<close> and \<open>mergedB\<close> from index \<open>i\<close> and \<open>j\<close> on.
\<close>

fun intersectLoop :: "Interval list \<Rightarrow> Interval list \<Rightarrow> Interval list" where
  "intersectLoop [] bs = []"
| "intersectLoop as [] = []"
| "intersectLoop (intervalA # as) (intervalB # bs) =
     (let s = max (i_start intervalA) (i_start intervalB);
          e = min (i_end intervalA) (i_end intervalB)
      in (if s < e then [\<lparr>i_start = s, i_end = e\<rparr>] else []) @
         (if i_end intervalA \<le> i_end intervalB
          then intersectLoop as (intervalB # bs)
          else intersectLoop (intervalA # as) bs))"

definition intersectIntervals :: "Interval list \<Rightarrow> Interval list \<Rightarrow> Interval list" where
  "intersectIntervals a b =
     (if length a = 0 \<or> length b = 0 then []
      else intersectLoop (mergeIntervals a) (mergeIntervals b))"

text \<open>The instants an interval list covers.\<close>

definition covered :: "Interval list \<Rightarrow> int set" where
  "covered xs = {t. \<exists>x \<in> set xs. i_start x \<le> t \<and> t < i_end x}"

text \<open>
  \<open>separated\<close>: every interval is non-empty and ends strictly before the next one
  starts (sorted, disjoint and non-adjacent). \<open>chained lo\<close>: every interval is
  non-empty, the first starts at \<open>lo\<close> or later, and each ends no later than the next
  one starts (sorted and disjoint; touching is allowed).
\<close>

fun separated :: "Interval list \<Rightarrow> bool" where
  "separated [] = True"
| "separated [x] = (i_start x < i_end x)"
| "separated (x # y # zs) = (i_start x < i_end x \<and> i_end x < i_start y \<and> separated (y # zs))"

fun chained :: "int \<Rightarrow> Interval list \<Rightarrow> bool" where
  "chained lo [] = True"
| "chained lo (x # xs) = (lo \<le> i_start x \<and> i_start x < i_end x \<and> chained (i_end x) xs)"

text \<open>The merge sweep with the last output element carried as \<open>cur\<close>.\<close>

fun sweep :: "Interval \<Rightarrow> Interval list \<Rightarrow> Interval list" where
  "sweep cur [] = [cur]"
| "sweep cur (x # xs) =
     (if i_start x \<le> i_end cur
      then (if i_end x > i_end cur then sweep (cur\<lparr>i_end := i_end x\<rparr>) xs else sweep cur xs)
      else cur # sweep x xs)"

section \<open>Limit math (packages/entitlements/src/limits.ts)\<close>

text \<open>
  Limits, usage counts and amounts are JavaScript numbers, that is IEEE-754 doubles. The
  model covers the doubles that hold integers, as \<open>int\<close>; fractions, NaN and the
  infinities are outside it. Comparison and \<open>Math.max\<close> of two doubles are exact. The
  operators \<open>+\<close> and \<open>-\<close> return the exact result rounded to the nearest double, a
  tie going to the double with the even significand: \<open>ulpOf n\<close> is the distance
  between neighbouring doubles at the magnitude \<open>n\<close> (1 below \<open>2 ^ 53\<close>, doubling
  with every further binary digit), \<open>roundNat\<close> rounds a magnitude and
  \<open>roundDouble\<close> an integer. \<open>null\<close> (unlimited) is \<open>None\<close>, an absent property
  is \<open>None\<close>. The \<open>params\<close> object of an obligation is an association list.
\<close>

function ulpOf :: "nat \<Rightarrow> nat" where
  "ulpOf n = (if n < 9007199254740992 then 1 else 2 * ulpOf (n div 2))"
  by pat_completeness auto
termination
  by (relation "measure id") auto

declare ulpOf.simps [simp del]

definition roundNat :: "nat \<Rightarrow> nat" where
  "roundNat n =
     (let u = ulpOf n;
          q = n div u;
          r = n mod u
      in if 2 * r < u then q * u
         else if 2 * r > u then (q + 1) * u
         else if even q then q * u else (q + 1) * u)"

definition roundDouble :: "int \<Rightarrow> int" where
  "roundDouble k = sgn k * int (roundNat (nat \<bar>k\<bar>))"

definition jsAdd :: "int \<Rightarrow> int \<Rightarrow> int" where
  "jsAdd a b = roundDouble (a + b)"

definition jsSub :: "int \<Rightarrow> int \<Rightarrow> int" where
  "jsSub a b = roundDouble (a - b)"

record Obligation =
  ob_type :: string
  ob_params :: "(string \<times> int) list"

record LimitCheckResult =
  allowed :: bool
  remaining :: "int option"
  obligation :: "Obligation option"

definition checkLimit :: "int option \<Rightarrow> int \<Rightarrow> int option \<Rightarrow> LimitCheckResult" where
  "checkLimit limit used consume_arg =
     (let consume = (case consume_arg of None \<Rightarrow> 1 | Some c \<Rightarrow> c)
      in case limit of
           None \<Rightarrow> \<lparr>allowed = True, remaining = None, obligation = None\<rparr>
         | Some lim \<Rightarrow>
             let remaining = jsSub lim used;
                 wouldExceed = (jsAdd used consume > lim)
             in if wouldExceed
                then \<lparr>allowed = False, remaining = Some (max 0 remaining), obligation = None\<rparr>
                else
                  let obligation = \<lparr>ob_type = ''consume'', ob_params = [(''amount'', consume)]\<rparr>
                  in \<lparr>allowed = True, remaining = Some (jsSub remaining consume),
                      obligation = Some obligation\<rparr>)"

section \<open>Policy resolvers (packages/entitlements/src/policy.ts)\<close>

text \<open>
  A rule result is a tagged union on \<open>outcome\<close>; only an allow result carries
  (optional) obligations.
\<close>

datatype RuleResult =
  Allow string "Obligation list option"
| Deny string
| Skip string

fun outcome :: "RuleResult \<Rightarrow> string" where
  "outcome (Allow explanation obligations) = ''allow''"
| "outcome (Deny explanation) = ''deny''"
| "outcome (Skip explanation) = ''skip''"

definition resolveAllMustAllow :: "RuleResult list \<Rightarrow> bool" where
  "resolveAllMustAllow results = (\<not> list_ex (\<lambda>r. outcome r = ''deny'') results)"

definition resolveAnyMustAllow :: "RuleResult list \<Rightarrow> bool" where
  "resolveAnyMustAllow results = list_ex (\<lambda>r. outcome r = ''allow'') results"

text \<open>
  \<open>createWeightedResolver weights\<close> returns a function of the results, the input and
  the facts; \<open>weightedLoop\<close> is its \<open>for\<close> loop with the running \<open>score\<close>. The
  \<open>weights\<close> table, the input and the facts are not read by the source.
\<close>

fun weightedLoop :: "int \<Rightarrow> RuleResult list \<Rightarrow> int" where
  "weightedLoop score [] = score"
| "weightedLoop score (result # results) =
     (if outcome result = ''allow'' then weightedLoop (score + 1) results
      else weightedLoop score results)"

definition createWeightedResolver ::
  "(string \<rightharpoonup> int) \<Rightarrow> RuleResult list \<Rightarrow> 'i \<Rightarrow> 'f \<Rightarrow> int" where
  "createWeightedResolver weights results input facts = weightedLoop 0 results"

text \<open>
  The weighted score in the specification's words: the sum, over the rules whose result is
  allow, of the rule's weight in the table. \<open>evaluate\<close> builds the results in the order
  of the policy's rules, so the rule of the \<open>k\<close>-th result is the \<open>k\<close>-th rule id. A
  rule without an entry in the table counts 0 here.
\<close>

fun weightedScoreSpec :: "(string \<rightharpoonup> int) \<Rightarrow> string list \<Rightarrow> RuleResult list \<Rightarrow> int" where
  "weightedScoreSpec weights (ruleId # ruleIds) (result # results) =
     (if outcome result = ''allow''
      then (case weights ruleId of Some w \<Rightarrow> w | None \<Rightarrow> 0) else 0)
     + weightedScoreSpec weights ruleIds results"
| "weightedScoreSpec weights ruleIds results = 0"

section \<open>Windows (packages/entitlements/src/time.ts)\<close>

datatype CalendarUnit = Hour | Day | Week | Month | Year

text \<open>A duration is raw milliseconds or an object with optional fields.\<close>

record DurationObject =
  hours :: "int option"
  days :: "int option"
  weeks :: "int option"
  months :: "int option"

datatype Duration = Milliseconds int | Structured DurationObject

datatype WindowSpec =
  Calendar CalendarUnit "string option"
| Sliding Duration
| Lifetime
| Fixed int int

text \<open>
  \<open>if (duration.hours) ms += \<dots>\<close>: an absent or zero field adds nothing.
\<close>

definition durationToMs :: "Duration \<Rightarrow> int" where
  "durationToMs duration =
     (case duration of
        Milliseconds n \<Rightarrow> n
      | Structured d \<Rightarrow>
          (case hours d of Some h \<Rightarrow> h * 60 * 60 * 1000 | None \<Rightarrow> 0)
          + (case days d of Some n \<Rightarrow> n * 24 * 60 * 60 * 1000 | None \<Rightarrow> 0)
          + (case weeks d of Some n \<Rightarrow> n * 7 * 24 * 60 * 60 * 1000 | None \<Rightarrow> 0)
          + (case months d of Some n \<Rightarrow> n * 30 * 24 * 60 * 60 * 1000 | None \<Rightarrow> 0))"

text \<open>
  The calendar helpers call the libraries date-fns and date-fns-tz, which are not part of
  the repository: \<open>startOfHour\<close>, \<open>startOfDay\<close>, \<open>startOfWeek\<close> (Monday start),
  \<open>startOfMonth\<close>, \<open>startOfYear\<close> are the parameter \<open>startOf\<close>, their \<open>endOf\<close>
  counterparts the parameter \<open>endOf\<close>, and the zone conversions the parameters
  \<open>toZonedTime\<close> and \<open>fromZonedTime\<close>.
\<close>

record DateFns =
  startOf :: "CalendarUnit \<Rightarrow> int \<Rightarrow> int"
  endOf :: "CalendarUnit \<Rightarrow> int \<Rightarrow> int"
  toZonedTime :: "int \<Rightarrow> string \<Rightarrow> int"
  fromZonedTime :: "int \<Rightarrow> string \<Rightarrow> int"

text \<open>\<open>timezone ? \<dots>\<close>: an absent or empty zone string is falsy.\<close>

definition zoneGiven :: "string option \<Rightarrow> string option" where
  "zoneGiven timezone = (case timezone of None \<Rightarrow> None | Some z \<Rightarrow> if z = [] then None else Some z)"

definition getStartOfUnit :: "DateFns \<Rightarrow> int \<Rightarrow> CalendarUnit \<Rightarrow> string option \<Rightarrow> int" where
  "getStartOfUnit lib date unit timezone =
     (let workingDate = (case zoneGiven timezone of Some z \<Rightarrow> toZonedTime lib date z | None \<Rightarrow> date);
          result = startOf lib unit workingDate
      in case zoneGiven timezone of Some z \<Rightarrow> fromZonedTime lib result z | None \<Rightarrow> result)"

definition getEndOfUnit :: "DateFns \<Rightarrow> int \<Rightarrow> CalendarUnit \<Rightarrow> string option \<Rightarrow> int" where
  "getEndOfUnit lib date unit timezone =
     (let workingDate = (case zoneGiven timezone of Some z \<Rightarrow> toZonedTime lib date z | None \<Rightarrow> date);
          result = endOf lib unit workingDate + 1
      in case zoneGiven timezone of Some z \<Rightarrow> fromZonedTime lib result z | None \<Rightarrow> result)"

definition EPOCH :: int where
  "EPOCH = 0"

text \<open>9999-12-31T23:59:59.999Z as a timestamp.\<close>

definition FAR_FUTURE :: int where
  "FAR_FUTURE = 253402300799999"

text \<open>
  \<open>resolveWindow spec at\<close>; the source's default \<open>at = new Date()\<close> is applied by the
  caller, who passes the clock reading.
\<close>

definition resolveWindow :: "DateFns \<Rightarrow> WindowSpec \<Rightarrow> int \<Rightarrow> Interval" where
  "resolveWindow lib spec at =
     (case spec of
        Calendar unit timezone \<Rightarrow>
          \<lparr>i_start = getStartOfUnit lib at unit timezone, i_end = getEndOfUnit lib at unit timezone\<rparr>
      | Sliding duration \<Rightarrow>
          (let ms = durationToMs duration in \<lparr>i_start = at - ms, i_end = at\<rparr>)
      | Lifetime \<Rightarrow> \<lparr>i_start = EPOCH, i_end = FAR_FUTURE\<rparr>
      | Fixed s e \<Rightarrow> \<lparr>i_start = s, i_end = e\<rparr>)"

section \<open>Entitlement queries: check (packages/entitlements/src/entitlements.ts)\<close>

record Entitlement =
  limit :: "int option"
  window :: "WindowSpec option"

text \<open>
  The adapter's two functions. Their results are awaited one after the other; the model
  calls them as pure functions and records each \<open>getUsage\<close> call (actor, action and
  interval) in a log returned beside the decision.
\<close>

record Adapter =
  getEntitlements :: "string \<Rightarrow> (string \<rightharpoonup> Entitlement)"
  getUsage :: "string \<Rightarrow> string \<Rightarrow> Interval \<Rightarrow> int"

text \<open>
  The input of \<open>check\<close>. The source destructures \<open>actorId\<close>, \<open>action\<close> and
  \<open>consume\<close>; \<open>at\<close> is the override instant that the README and the tests pass in
  the same object.
\<close>

record CheckInput =
  actorId :: string
  action :: string
  consume :: "int option"
  at :: "int option"

record Reason =
  reason_rule :: string
  reason_outcome :: string
  reason_explanation :: string

record Trace =
  evaluatedAt :: int
  durationMs :: int
  fact_entitlements :: "string \<rightharpoonup> Entitlement"
  fact_usage :: "(string \<times> int) list option"

record Decision =
  decision_allowed :: bool
  reasons :: "Reason list"
  obligations :: "Obligation list"
  trace :: Trace

text \<open>Decimal rendering of a number inside a template string.\<close>

function showNat :: "nat \<Rightarrow> string" where
  "showNat n =
     (if n < 10 then [char_of (48 + n)]
      else showNat (n div 10) @ [char_of (48 + n mod 10)])"
  by pat_completeness auto
termination
  by (relation "measure id") auto

definition showInt :: "int \<Rightarrow> string" where
  "showInt k = (if k < 0 then CHR ''-'' # showNat (nat (- k)) else showNat (nat k))"

text \<open>
  \<open>check\<close>. \<open>now\<close> is the clock reading that \<open>resolveWindow\<close> takes as its default
  reference time (the source calls it with the window only), \<open>now'\<close> the later reading
  stored as \<open>evaluatedAt\<close>. The result is the decision and the log of \<open>getUsage\<close>
  calls.
\<close>

definition check ::
  "DateFns \<Rightarrow> Adapter \<Rightarrow> int \<Rightarrow> int \<Rightarrow> CheckInput
     \<Rightarrow> Decision \<times> (string \<times> string \<times> Interval) list" where
  "check lib adapter now now' input =
     (let consume = (case consume input of None \<Rightarrow> 1 | Some c \<Rightarrow> c);
          entitlements = getEntitlements adapter (actorId input)
      in case entitlements (action input) of
           None \<Rightarrow>
             (\<lparr>decision_allowed = False,
               reasons = [\<lparr>reason_rule = ''entitlement-exists'', reason_outcome = ''deny'',
                           reason_explanation = ''No entitlement defined for action: '' @ action input\<rparr>],
               obligations = [],
               trace = \<lparr>evaluatedAt = now', durationMs = 0,
                        fact_entitlements = entitlements, fact_usage = None\<rparr>\<rparr>, [])
         | Some entitlement \<Rightarrow>
             let calls =
                   (if limit entitlement \<noteq> None \<and> window entitlement \<noteq> None
                    then [(actorId input, action input,
                           resolveWindow lib (the (window entitlement)) now)]
                    else if limit entitlement \<noteq> None
                    then [(actorId input, action input, resolveWindow lib Lifetime now)]
                    else []);
                 used = (case calls of
                           [] \<Rightarrow> 0
                         | (actor, act, interval) # _ \<Rightarrow> getUsage adapter actor act interval);
                 result = checkLimit (limit entitlement) used (Some consume);
                 obligations = (case obligation result of Some ob \<Rightarrow> [ob] | None \<Rightarrow> [])
             in (\<lparr>decision_allowed = allowed result,
                  reasons =
                    [\<lparr>reason_rule = ''limit-check'',
                      reason_outcome = (if allowed result then ''allow'' else ''deny''),
                      reason_explanation =
                        (if allowed result
                         then ''Action allowed ('' @
                              (case remaining result of
                                 None \<Rightarrow> ''unlimited''
                               | Some r \<Rightarrow> showInt r @ '' remaining'') @ '')''
                         else ''Limit exceeded ('' @ showInt used @ ''/'' @
                              (case limit entitlement of Some l \<Rightarrow> showInt l | None \<Rightarrow> ''null'')
                              @ '' used)'')\<rparr>],
                  obligations = obligations,
                  trace = \<lparr>evaluatedAt = now', durationMs = 0,
                           fact_entitlements = entitlements,
                           fact_usage = Some [(action input, used)]\<rparr>\<rparr>, calls))"

section \<open>Dates of the platform\<close>

text \<open>
  The built-in \<open>Date\<close> and \<open>Intl.DateTimeFormat\<close> are not code of the repository.
  They are modelled on timestamps in the proleptic Gregorian calendar; the zone database
  is a parameter, the function \<open>tz\<close> giving a zone's offset from UTC in milliseconds
  at a UTC instant. \<open>civil_from_days\<close> and \<open>days_from_civil\<close> convert between a day
  number (days since 1970-01-01) and year, month (1 to 12) and day of month.
\<close>

type_synonym TzOffset = "string \<Rightarrow> int \<Rightarrow> int"

definition msPerDay :: int where
  "msPerDay = 86400000"

definition civil_from_days :: "int \<Rightarrow> int \<times> int \<times> int" where
  "civil_from_days z0 =
     (let z = z0 + 719468;
          era = z div 146097;
          doe = z - era * 146097;
          yoe = (doe - doe div 1460 + doe div 36524 - doe div 146096) div 365;
          y = yoe + era * 400;
          doy = doe - (365 * yoe + yoe div 4 - yoe div 100);
          mp = (5 * doy + 2) div 153;
          d = doy - (153 * mp + 2) div 5 + 1;
          m = (if mp < 10 then mp + 3 else mp - 9)
      in (if m \<le> 2 then y + 1 else y, m, d))"

definition days_from_civil :: "int \<Rightarrow> int \<Rightarrow> int \<Rightarrow> int" where
  "days_from_civil y0 m d =
     (let y = (if m \<le> 2 then y0 - 1 else y0);
          era = y div 400;
          yoe = y - era * 400;
          doy = (153 * (if m > 2 then m - 3 else m + 9) + 2) div 5 + d - 1;
          doe = yoe * 365 + yoe div 4 - yoe div 100 + doy
      in era * 146097 + doe - 719468)"

text \<open>
  \<open>Date.UTC(year, monthIndex, day, hours, minutes, seconds)\<close>: a year from 0 to 99
  means 1900 plus that year; months and days out of range carry over.
\<close>

definition DateUTC :: "int \<Rightarrow> int \<Rightarrow> int \<Rightarrow> int \<Rightarrow> int \<Rightarrow> int \<Rightarrow> int" where
  "DateUTC y monthIndex d h mi s =
     (let y' = (if 0 \<le> y \<and> y \<le> 99 then 1900 + y else y);
          ym = y' + monthIndex div 12;
          mn = monthIndex mod 12
      in (days_from_civil ym (mn + 1) 1 + d - 1) * msPerDay
         + h * 3600000 + mi * 60000 + s * 1000)"

definition getUTCFullYear :: "int \<Rightarrow> int" where
  "getUTCFullYear t = fst (civil_from_days (t div msPerDay))"

definition getUTCMonth :: "int \<Rightarrow> int" where
  "getUTCMonth t = fst (snd (civil_from_days (t div msPerDay))) - 1"

definition getUTCDate :: "int \<Rightarrow> int" where
  "getUTCDate t = snd (snd (civil_from_days (t div msPerDay)))"

text \<open>Day of the week, 0 for Sunday; 1970-01-01 was a Thursday.\<close>

definition getUTCDay :: "int \<Rightarrow> int" where
  "getUTCDay t = (t div msPerDay + 4) mod 7"

text \<open>
  \<open>d.setUTCDate(d.getUTCDate() + n)\<close> moves a date by \<open>n\<close> days, carrying over month
  and year ends; \<open>d.setUTCHours(0, 0, 0, 0)\<close> goes back to midnight UTC.
\<close>

definition plusUTCDays :: "int \<Rightarrow> int \<Rightarrow> int" where
  "plusUTCDays t n = t + n * msPerDay"

definition midnightUTC :: "int \<Rightarrow> int" where
  "midnightUTC t = t - t mod msPerDay"

text \<open>
  The fields an \<open>Intl.DateTimeFormat\<close> of a zone prints for an instant: those of the
  instant moved by the zone's offset. The date string \<open>YYYY-MM-DD\<close> of the \<open>en-CA\<close>
  format is kept as the triple (year, month, day), which string comparison orders as the
  triples are ordered for four-digit years. Hours print from 0 to 23.
\<close>

definition zonedDate :: "TzOffset \<Rightarrow> string \<Rightarrow> int \<Rightarrow> int \<times> int \<times> int" where
  "zonedDate tz timezone t = civil_from_days ((t + tz timezone t) div msPerDay)"

definition zonedHour :: "TzOffset \<Rightarrow> string \<Rightarrow> int \<Rightarrow> int" where
  "zonedHour tz timezone t = ((t + tz timezone t) mod msPerDay) div 3600000"

definition zonedMinute :: "TzOffset \<Rightarrow> string \<Rightarrow> int \<Rightarrow> int" where
  "zonedMinute tz timezone t = ((t + tz timezone t) mod 3600000) div 60000"

definition zonedSecond :: "TzOffset \<Rightarrow> string \<Rightarrow> int \<Rightarrow> int" where
  "zonedSecond tz timezone t = ((t + tz timezone t) mod 60000) div 1000"

datatype DayOfWeek = sunday | monday | tuesday | wednesday | thursday | friday | saturday

definition zonedWeekday :: "TzOffset \<Rightarrow> string \<Rightarrow> int \<Rightarrow> DayOfWeek" where
  "zonedWeekday tz timezone t =
     [sunday, monday, tuesday, wednesday, thursday, friday, saturday]
       ! nat (((t + tz timezone t) div msPerDay + 4) mod 7)"

text \<open>\<open>Math.ceil(a / b)\<close> for integers \<open>a\<close> and a positive \<open>b\<close>.\<close>

definition ceilDiv :: "int \<Rightarrow> int \<Rightarrow> int" where
  "ceilDiv a b = - ((- a) div b)"

text \<open>The remainder operator \<open>%\<close>, which takes the sign of the dividend.\<close>

definition jsRem :: "int \<Rightarrow> int \<Rightarrow> int" where
  "jsRem a b = sgn a * (\<bar>a\<bar> mod \<bar>b\<bar>)"

section \<open>Recurrence expansion (src/helpers.ts)\<close>

text \<open>
  A local time \<open>HH:MM\<close> is kept as the pair of numbers that
  \<open>localTime.split(':').map(Number)\<close> yields.
\<close>

type_synonym LocalTime = "int \<times> int"

definition localTimeToUtc :: "TzOffset \<Rightarrow> int \<Rightarrow> LocalTime \<Rightarrow> string \<Rightarrow> int" where
  "localTimeToUtc tz date localTime timezone =
     (let hours = fst localTime;
          minutes = snd localTime;
          dateParts = zonedDate tz timezone date;
          year = fst dateParts;
          month = fst (snd dateParts);
          day = snd (snd dateParts);
          tempDate = days_from_civil year month day * msPerDay + hours * 3600000 + minutes * 60000;
          parts = zonedDate tz timezone tempDate;
          tzYear = fst parts;
          tzMonth = fst (snd parts);
          tzDay = snd (snd parts);
          tzHour = zonedHour tz timezone tempDate;
          tzMinute = zonedMinute tz timezone tempDate;
          tzDate = DateUTC tzYear (tzMonth - 1) tzDay tzHour tzMinute 0;
          offset = tzDate - tempDate;
          localTimestamp = DateUTC year (month - 1) day hours minutes 0
      in localTimestamp - offset)"

definition getDayOfWeekInTimezone :: "TzOffset \<Rightarrow> int \<Rightarrow> string \<Rightarrow> DayOfWeek" where
  "getDayOfWeekInTimezone tz date timezone = zonedWeekday tz timezone date"

definition getDayOfMonthInTimezone :: "TzOffset \<Rightarrow> int \<Rightarrow> string \<Rightarrow> int" where
  "getDayOfMonthInTimezone tz date timezone = snd (snd (zonedDate tz timezone date))"

definition addDays :: "int \<Rightarrow> int \<Rightarrow> int" where
  "addDays date n = plusUTCDays date n"

definition isExcluded :: "TzOffset \<Rightarrow> int \<Rightarrow> int list option \<Rightarrow> string \<Rightarrow> bool" where
  "isExcluded tz date excludeDates timezone =
     (case excludeDates of
        None \<Rightarrow> False
      | Some ds \<Rightarrow>
          if length ds = 0 then False
          else let dateStr = zonedDate tz timezone date
               in list_ex (\<lambda>excludeDate. dateStr = zonedDate tz timezone excludeDate) ds)"

definition getWeekNumber :: "int \<Rightarrow> int" where
  "getWeekNumber date =
     (let d = DateUTC (getUTCFullYear date) (getUTCMonth date) (getUTCDate date) 0 0 0;
          dayNum = (if getUTCDay d = 0 then 7 else getUTCDay d);
          d' = plusUTCDays d (4 - dayNum);
          yearStart = DateUTC (getUTCFullYear d') 0 1 0 0 0
      in ceilDiv ((d' - yearStart) div 86400000 + 1) 7)"

definition isInBiweeklyCycle :: "int \<Rightarrow> int \<Rightarrow> bool" where
  "isInBiweeklyCycle date anchorDate =
     (let anchorWeek = getWeekNumber anchorDate;
          dateWeek = getWeekNumber date;
          anchorYear = getUTCFullYear anchorDate;
          dateYear = getUTCFullYear date;
          anchorTotalWeeks = anchorYear * 52 + anchorWeek;
          dateTotalWeeks = dateYear * 52 + dateWeek
      in jsRem (dateTotalWeeks - anchorTotalWeeks) 2 = 0)"

datatype RecurrenceFrequency = daily | weekly | biweekly | monthly

record RecurrenceRule =
  frequency :: RecurrenceFrequency
  rr_days :: "DayOfWeek list option"
  rr_dayOfMonth :: "int option"
  rr_startTime :: LocalTime
  rr_endTime :: LocalTime
  rr_timezone :: string
  rr_start :: "int option"
  rr_until :: "int option"
  rr_count :: "int option"
  rr_exclude :: "int list option"

text \<open>The \<open>switch\<close> on the frequency: whether the day is a day of the rule.\<close>

definition shouldInclude :: "TzOffset \<Rightarrow> RecurrenceRule \<Rightarrow> Interval \<Rightarrow> int \<Rightarrow> bool" where
  "shouldInclude tz rule rng currentDate =
     (let dayOfWeek = getDayOfWeekInTimezone tz currentDate (rr_timezone rule);
          dayOfMonth = getDayOfMonthInTimezone tz currentDate (rr_timezone rule)
      in case frequency rule of
           daily \<Rightarrow> (case rr_days rule of None \<Rightarrow> True | Some ds \<Rightarrow> dayOfWeek \<in> set ds)
         | weekly \<Rightarrow> (case rr_days rule of None \<Rightarrow> False | Some ds \<Rightarrow> dayOfWeek \<in> set ds)
         | biweekly \<Rightarrow>
             (case rr_days rule of
                None \<Rightarrow> False
              | Some ds \<Rightarrow>
                  if dayOfWeek \<in> set ds
                  then (let anchorDate = (case rr_start rule of Some a \<Rightarrow> a | None \<Rightarrow> i_start rng)
                        in isInBiweeklyCycle currentDate anchorDate)
                  else False)
         | monthly \<Rightarrow> (rr_dayOfMonth rule = Some dayOfMonth))"

text \<open>
  The day loop of \<open>expandRecurrence\<close>, with its variables \<open>currentDate\<close>, \<open>count\<close>
  and \<open>intervals\<close>; \<open>maxCount\<close> is \<open>None\<close> for \<open>Infinity\<close>.
\<close>

function expandLoop ::
  "TzOffset \<Rightarrow> RecurrenceRule \<Rightarrow> Interval \<Rightarrow> int \<Rightarrow> int option
     \<Rightarrow> int \<Rightarrow> int \<Rightarrow> Interval list \<Rightarrow> Interval list" where
  "expandLoop tz rule rng effectiveEnd maxCount currentDate count intervals =
     (if currentDate < effectiveEnd \<and> (case maxCount of None \<Rightarrow> True | Some m \<Rightarrow> count < m)
      then
        (if shouldInclude tz rule rng currentDate
            \<and> \<not> isExcluded tz currentDate (rr_exclude rule) (rr_timezone rule)
         then
           (let s = localTimeToUtc tz currentDate (rr_startTime rule) (rr_timezone rule);
                e = localTimeToUtc tz currentDate (rr_endTime rule) (rr_timezone rule)
            in if s \<ge> i_start rng \<and> e \<le> i_end rng
               then expandLoop tz rule rng effectiveEnd maxCount (addDays currentDate 1)
                      (count + 1) (intervals @ [\<lparr>i_start = s, i_end = e\<rparr>])
               else if s \<ge> i_start rng \<and> s < i_end rng
               then expandLoop tz rule rng effectiveEnd maxCount (addDays currentDate 1)
                      (count + 1) (intervals @ [\<lparr>i_start = s, i_end = e\<rparr>])
               else expandLoop tz rule rng effectiveEnd maxCount (addDays currentDate 1)
                      count intervals)
         else expandLoop tz rule rng effectiveEnd maxCount (addDays currentDate 1)
                count intervals)
      else intervals)"
  by pat_completeness auto
termination
  by (relation "measure (\<lambda>(tz, rule, rng, effectiveEnd, maxCount, currentDate, count, intervals).
                    nat (effectiveEnd - currentDate))")
     (auto simp: addDays_def plusUTCDays_def msPerDay_def)

declare expandLoop.simps [simp del]

definition expandRecurrence :: "TzOffset \<Rightarrow> RecurrenceRule \<Rightarrow> Interval \<Rightarrow> Interval list" where
  "expandRecurrence tz rule rng =
     (let maxCount = rr_count rule;
          effectiveStart = i_start rng - 24 * 60 * 60 * 1000;
          rangeEndExtended = i_end rng + 24 * 60 * 60 * 1000;
          effectiveEnd = (case rr_until rule of
                            Some u \<Rightarrow> min rangeEndExtended u
                          | None \<Rightarrow> rangeEndExtended)
      in expandLoop tz rule rng effectiveEnd maxCount effectiveStart 0 [])"

text \<open>
  The ISO week distance between two instants, in the specification's words: the number of
  weeks between the Mondays of their UTC weeks.
\<close>

definition mondayOfWeek :: "int \<Rightarrow> int" where
  "mondayOfWeek t = t div msPerDay - (t div msPerDay + 3) mod 7"

definition isoWeekDistance :: "int \<Rightarrow> int \<Rightarrow> int" where
  "isoWeekDistance date anchorDate = (mondayOfWeek date - mondayOfWeek anchorDate) div 7"

section \<open>Schedule expansion (src/schedule.ts)\<close>

text \<open>
  A date given as \<open>Date\<close> or as a \<open>YYYY-MM-DD\<close> string; the string is kept as the
  three numbers that \<open>date.split('-').map(Number)\<close> yields.
\<close>

datatype DateInput = DateObject int | DateString int int int

record ScheduleRule =
  sr_days :: "DayOfWeek list"
  sr_startTime :: LocalTime
  sr_endTime :: LocalTime
  sr_timezone :: string
  sr_effectiveFrom :: "DateInput option"
  sr_effectiveUntil :: "DateInput option"

record ScheduleOverride =
  so_date :: DateInput
  so_available :: bool
  so_startTime :: "LocalTime option"
  so_endTime :: "LocalTime option"

record Schedule =
  schedule_id :: string
  schedule_rules :: "ScheduleRule list"
  schedule_overrides :: "ScheduleOverride list option"

definition normalizeDate :: "DateInput \<Rightarrow> int" where
  "normalizeDate date =
     (case date of
        DateObject t \<Rightarrow> t
      | DateString year month day \<Rightarrow> DateUTC year (month - 1) day 0 0 0)"

definition getDateStringInTimezone :: "TzOffset \<Rightarrow> int \<Rightarrow> string \<Rightarrow> int \<times> int \<times> int" where
  "getDateStringInTimezone tz date timezone = zonedDate tz timezone date"

text \<open>The order of two date strings.\<close>

definition dateStrLess :: "int \<times> int \<times> int \<Rightarrow> int \<times> int \<times> int \<Rightarrow> bool" where
  "dateStrLess a b =
     (fst a < fst b \<or>
      (fst a = fst b \<and>
         (fst (snd a) < fst (snd b) \<or>
          (fst (snd a) = fst (snd b) \<and> snd (snd a) < snd (snd b)))))"

definition getTimezoneOffset :: "TzOffset \<Rightarrow> int \<Rightarrow> string \<Rightarrow> int" where
  "getTimezoneOffset tz utcDate timezone =
     (let parts = zonedDate tz timezone utcDate;
          localYear = fst parts;
          localMonth = fst (snd parts);
          localDay = snd (snd parts);
          localHour = zonedHour tz timezone utcDate;
          localMinute = zonedMinute tz timezone utcDate;
          localSecond = zonedSecond tz timezone utcDate;
          localAsUTC = DateUTC localYear (localMonth - 1) localDay localHour localMinute localSecond
      in localAsUTC - utcDate)"

definition localTimeToUTC :: "TzOffset \<Rightarrow> int \<Rightarrow> LocalTime \<Rightarrow> string \<Rightarrow> int" where
  "localTimeToUTC tz date time timezone =
     (let dateStr = getDateStringInTimezone tz date timezone;
          year = fst dateStr;
          month = fst (snd dateStr);
          day = snd (snd dateStr);
          hours = fst time;
          minutes = snd time;
          roughEstimate = DateUTC year (month - 1) day hours minutes 0;
          offsetMs = getTimezoneOffset tz roughEstimate timezone;
          utcTime = roughEstimate - offsetMs;
          verifyOffset = getTimezoneOffset tz utcTime timezone
      in if verifyOffset \<noteq> offsetMs then roughEstimate - verifyOffset else utcTime)"

definition isRuleEffective :: "TzOffset \<Rightarrow> ScheduleRule \<Rightarrow> int \<Rightarrow> bool" where
  "isRuleEffective tz r date =
     (let beforeFrom =
            (case sr_effectiveFrom r of
               None \<Rightarrow> False
             | Some ef \<Rightarrow>
                 let effectiveFrom = normalizeDate ef;
                     dateStr = getDateStringInTimezone tz date (sr_timezone r);
                     fromStr = getDateStringInTimezone tz effectiveFrom (sr_timezone r)
                 in dateStrLess dateStr fromStr);
          fromUntil =
            (case sr_effectiveUntil r of
               None \<Rightarrow> False
             | Some eu \<Rightarrow>
                 let effectiveUntil = normalizeDate eu;
                     dateStr = getDateStringInTimezone tz date (sr_timezone r);
                     untilStr = getDateStringInTimezone tz effectiveUntil (sr_timezone r)
                 in \<not> dateStrLess dateStr untilStr)
      in if beforeFrom then False else if fromUntil then False else True)"

definition doesOverrideApply :: "TzOffset \<Rightarrow> ScheduleOverride \<Rightarrow> int \<Rightarrow> string \<Rightarrow> bool" where
  "doesOverrideApply tz override date timezone =
     (let overrideDate = normalizeDate (so_date override);
          overrideDateStr = getDateStringInTimezone tz overrideDate timezone;
          currentDateStr = getDateStringInTimezone tz date timezone
      in overrideDateStr = currentDateStr)"

definition generateIntervalFromRule :: "TzOffset \<Rightarrow> ScheduleRule \<Rightarrow> int \<Rightarrow> Interval" where
  "generateIntervalFromRule tz r date =
     (let startUTC = localTimeToUTC tz date (sr_startTime r) (sr_timezone r);
          endUTC = localTimeToUTC tz date (sr_endTime r) (sr_timezone r)
      in \<lparr>i_start = startUTC, i_end = endUTC\<rparr>)"

text \<open>The generator \<open>iterateDays\<close>, as the list of the days it yields.\<close>

function iterateDaysFrom :: "int \<Rightarrow> int \<Rightarrow> int list" where
  "iterateDaysFrom current e =
     (if current < e then current # iterateDaysFrom (plusUTCDays current 1) e else [])"
  by pat_completeness auto
termination
  by (relation "measure (\<lambda>(current, e). nat (e - current))")
     (auto simp: plusUTCDays_def msPerDay_def)

declare iterateDaysFrom.simps [simp del]

definition iterateDays :: "Interval \<Rightarrow> int list" where
  "iterateDays rng = iterateDaysFrom (midnightUTC (i_start rng)) (i_end rng)"

text \<open>
  The body of the day loop of \<open>expandSchedule\<close>, one function for each of the three
  arrays it pushes to: the rule intervals of a day, the removals and the additions of
  the overrides that apply on the day.
\<close>

definition ruleIntervalsOfDay :: "TzOffset \<Rightarrow> ScheduleRule list \<Rightarrow> int \<Rightarrow> Interval list" where
  "ruleIntervalsOfDay tz rs day =
     concat (map (\<lambda>r.
       let dayOfWeek = zonedWeekday tz (sr_timezone r) day
       in if dayOfWeek \<notin> set (sr_days r) then []
          else if \<not> isRuleEffective tz r day then []
          else let interval = generateIntervalFromRule tz r day
               in if i_start interval < i_end interval then [interval] else []) rs)"

definition removalsOfDay ::
  "TzOffset \<Rightarrow> ScheduleOverride list \<Rightarrow> string \<Rightarrow> int \<Rightarrow> Interval list" where
  "removalsOfDay tz os defaultTimezone day =
     concat (map (\<lambda>override.
       if \<not> doesOverrideApply tz override day defaultTimezone then []
       else if so_available override = False
       then (if so_startTime override \<noteq> None \<and> so_endTime override \<noteq> None
             then [\<lparr>i_start = localTimeToUTC tz day (the (so_startTime override)) defaultTimezone,
                    i_end = localTimeToUTC tz day (the (so_endTime override)) defaultTimezone\<rparr>]
             else [\<lparr>i_start = midnightUTC day, i_end = midnightUTC (plusUTCDays day 1)\<rparr>])
       else []) os)"

definition additionsOfDay ::
  "TzOffset \<Rightarrow> ScheduleOverride list \<Rightarrow> string \<Rightarrow> int \<Rightarrow> Interval list" where
  "additionsOfDay tz os defaultTimezone day =
     concat (map (\<lambda>override.
       if \<not> doesOverrideApply tz override day defaultTimezone then []
       else if so_available override = False then []
       else if so_startTime override \<noteq> None \<and> so_endTime override \<noteq> None
       then (let addStart = localTimeToUTC tz day (the (so_startTime override)) defaultTimezone;
                 addEnd = localTimeToUTC tz day (the (so_endTime override)) defaultTimezone
             in if addStart < addEnd then [\<lparr>i_start = addStart, i_end = addEnd\<rparr>] else [])
       else []) os)"

text \<open>The final clip of a result to the requested range.\<close>

definition clipToRange :: "Interval \<Rightarrow> Interval list \<Rightarrow> Interval list" where
  "clipToRange rng result =
     filter (\<lambda>interval. i_start interval < i_end interval)
       (map (\<lambda>interval. \<lparr>i_start = max (i_start interval) (i_start rng),
                          i_end = min (i_end interval) (i_end rng)\<rparr>) result)"

definition expandSchedule :: "TzOffset \<Rightarrow> Schedule \<Rightarrow> Interval \<Rightarrow> Interval list" where
  "expandSchedule tz schedule rng =
     (let defaultTimezone = (if length (schedule_rules schedule) > 0
                             then sr_timezone (hd (schedule_rules schedule)) else ''UTC'');
          dayList = iterateDays rng;
          intervals = concat (map (ruleIntervalsOfDay tz (schedule_rules schedule)) dayList);
          overridesToRemove =
            (case schedule_overrides schedule of
               None \<Rightarrow> []
             | Some os \<Rightarrow> concat (map (removalsOfDay tz os defaultTimezone) dayList));
          overridesToAdd =
            (case schedule_overrides schedule of
               None \<Rightarrow> []
             | Some os \<Rightarrow> concat (map (additionsOfDay tz os defaultTimezone) dayList));
          result = mergeIntervals intervals;
          result = (if length overridesToRemove > 0
                    then subtractIntervals result overridesToRemove else result);
          result = (if length overridesToAdd > 0
                    then mergeIntervals (result @ overridesToAdd) else result)
      in clipToRange rng result)"

section \<open>A sample schedule\<close>

text \<open>
  Thursday 1970-01-01 in UTC: two overlapping rules (09:00 to 12:00 and 11:00 to 17:00), an
  override that removes 10:00 to 10:30 and one that adds 18:00 to 19:00.
\<close>

definition demoRules :: "ScheduleRule list" where
  "demoRules =
     [\<lparr>sr_days = [thursday], sr_startTime = (9, 0), sr_endTime = (12, 0),
       sr_timezone = ''UTC'', sr_effectiveFrom = None, sr_effectiveUntil = None\<rparr>,
      \<lparr>sr_days = [thursday], sr_startTime = (11, 0), sr_endTime = (17, 0),
       sr_timezone = ''UTC'', sr_effectiveFrom = None, sr_effectiveUntil = None\<rparr>]"

definition demoOverrides :: "ScheduleOverride list" where
  "demoOverrides =
     [\<lparr>so_date = DateString 1970 1 1, so_available = False,
       so_startTime = Some (10, 0), so_endTime = Some (10, 30)\<rparr>,
      \<lparr>so_date = DateObject 0, so_available = True,
       so_startTime = Some (18, 0), so_endTime = Some (19, 0)\<rparr>]"

definition demoSchedule :: Schedule where
  "demoSchedule =
     \<lparr>schedule_id = ''default'', schedule_rules = demoRules,
      schedule_overrides = Some demoOverrides\<rparr>"

section \<open>Slot generation (src/slots.ts)\<close>

text \<open>
  Durations are JavaScript numbers holding whole milliseconds, modelled as \<open>int\<close>. An
  optional property is an \<open>option\<close>, \<open>None\<close> when it is absent.
\<close>

record HostOverride =
  ho_length :: "int option"
  ho_scheduleKey :: "string option"
  ho_bufferBefore :: "int option"
  ho_bufferAfter :: "int option"
  ho_slotInterval :: "int option"
  ho_minimumNotice :: "int option"
  ho_maximumLeadTime :: "int option"
  ho_maxPerDay :: "int option"
  ho_maxPerWeek :: "int option"

record EventType =
  et_id :: string
  et_length :: int
  et_scheduleKey :: "string option"
  et_bufferBefore :: "int option"
  et_bufferAfter :: "int option"
  et_slotInterval :: "int option"
  et_minimumNotice :: "int option"
  et_maximumLeadTime :: "int option"
  et_maxPerDay :: "int option"
  et_maxPerWeek :: "int option"
  et_hostOverrides :: "(string \<rightharpoonup> HostOverride) option"

record Booking =
  b_id :: "string option"
  b_hostId :: string
  b_start :: int
  b_end :: int
  b_eventTypeId :: "string option"

record Block =
  bl_hostId :: string
  bl_start :: int
  bl_end :: int

record Slot =
  s_hostId :: string
  s_start :: int
  s_end :: int
  s_bufferBefore :: "Interval option"
  s_bufferAfter :: "Interval option"

record HostSchedules =
  hs_hostId :: string
  hs_schedules :: "string \<rightharpoonup> Schedule"

record EventTypeBufferConfig =
  bc_bufferBefore :: "int option"
  bc_bufferAfter :: "int option"

record GetAvailableSlotsInput =
  in_eventType :: EventType
  in_hosts :: "HostSchedules list"
  in_bookings :: "Booking list"
  in_blocks :: "Block list option"
  in_range :: Interval
  in_eventTypes :: "(string \<rightharpoonup> EventTypeBufferConfig) option"

definition getISOWeek :: "int \<Rightarrow> int" where
  "getISOWeek date =
     (let d = DateUTC (getUTCFullYear date) (getUTCMonth date) (getUTCDate date) 0 0 0;
          dayNum = (if getUTCDay d = 0 then 7 else getUTCDay d);
          d' = plusUTCDays d (4 - dayNum);
          yearStart = DateUTC (getUTCFullYear d') 0 1 0 0 0;
          weekNo = ceilDiv ((d' - yearStart) div 86400000 + 1) 7
      in weekNo)"

definition getISOWeekYear :: "int \<Rightarrow> int" where
  "getISOWeekYear date =
     (let d = DateUTC (getUTCFullYear date) (getUTCMonth date) (getUTCDate date) 0 0 0;
          dayNum = (if getUTCDay d = 0 then 7 else getUTCDay d);
          d' = plusUTCDays d (4 - dayNum)
      in getUTCFullYear d')"

text \<open>
  The keys of the counting maps. \<open>getDateKey\<close> is the date part \<open>YYYY-MM-DD\<close> of
  \<open>toISOString\<close>, kept as the triple of year, month and day; \<open>getWeekKey\<close> is the
  string \<open>YYYY-Www\<close>, kept as the pair of ISO week year and ISO week.
\<close>

type_synonym DateKey = "int \<times> int \<times> int"

type_synonym WeekKey = "int \<times> int"

definition getDateKey :: "int \<Rightarrow> DateKey" where
  "getDateKey date = civil_from_days (date div msPerDay)"

definition getWeekKey :: "int \<Rightarrow> WeekKey" where
  "getWeekKey date =
     (let y = getISOWeekYear date;
          w = getISOWeek date
      in (y, w))"

text \<open>
  \<open>{...eventType, ...hostOverride}\<close>: a property present in the override replaces the
  event type's.
\<close>

definition resolveHostConfig :: "EventType \<Rightarrow> string \<Rightarrow> EventType" where
  "resolveHostConfig eventType hostId =
     (case (case et_hostOverrides eventType of None \<Rightarrow> None | Some m \<Rightarrow> m hostId) of
        None \<Rightarrow> eventType
      | Some hostOverride \<Rightarrow>
          eventType
            \<lparr>et_length := (case ho_length hostOverride of Some v \<Rightarrow> v | None \<Rightarrow> et_length eventType),
             et_scheduleKey := (case ho_scheduleKey hostOverride of
                                  Some v \<Rightarrow> Some v | None \<Rightarrow> et_scheduleKey eventType),
             et_bufferBefore := (case ho_bufferBefore hostOverride of
                                   Some v \<Rightarrow> Some v | None \<Rightarrow> et_bufferBefore eventType),
             et_bufferAfter := (case ho_bufferAfter hostOverride of
                                  Some v \<Rightarrow> Some v | None \<Rightarrow> et_bufferAfter eventType),
             et_slotInterval := (case ho_slotInterval hostOverride of
                                   Some v \<Rightarrow> Some v | None \<Rightarrow> et_slotInterval eventType),
             et_minimumNotice := (case ho_minimumNotice hostOverride of
                                    Some v \<Rightarrow> Some v | None \<Rightarrow> et_minimumNotice eventType),
             et_maximumLeadTime := (case ho_maximumLeadTime hostOverride of
                                      Some v \<Rightarrow> Some v | None \<Rightarrow> et_maximumLeadTime eventType),
             et_maxPerDay := (case ho_maxPerDay hostOverride of
                                Some v \<Rightarrow> Some v | None \<Rightarrow> et_maxPerDay eventType),
             et_maxPerWeek := (case ho_maxPerWeek hostOverride of
                                 Some v \<Rightarrow> Some v | None \<Rightarrow> et_maxPerWeek eventType)\<rparr>)"

text \<open>The configuration values with their defaults.\<close>

definition scheduleKeyOf :: "EventType \<Rightarrow> string" where
  "scheduleKeyOf config = (case et_scheduleKey config of Some k \<Rightarrow> k | None \<Rightarrow> ''default'')"

definition slotIntervalOf :: "EventType \<Rightarrow> int" where
  "slotIntervalOf config =
     (case et_slotInterval config of Some v \<Rightarrow> v | None \<Rightarrow> et_length config)"

definition bufferBeforeOf :: "EventType \<Rightarrow> int" where
  "bufferBeforeOf config = (case et_bufferBefore config of Some v \<Rightarrow> v | None \<Rightarrow> 0)"

definition bufferAfterOf :: "EventType \<Rightarrow> int" where
  "bufferAfterOf config = (case et_bufferAfter config of Some v \<Rightarrow> v | None \<Rightarrow> 0)"

definition minimumNoticeOf :: "EventType \<Rightarrow> int" where
  "minimumNoticeOf config = (case et_minimumNotice config of Some v \<Rightarrow> v | None \<Rightarrow> 0)"

definition inflateInterval :: "Interval \<Rightarrow> int \<Rightarrow> int \<Rightarrow> Interval" where
  "inflateInterval interval bufferBefore bufferAfter =
     \<lparr>i_start = i_start interval - bufferBefore, i_end = i_end interval + bufferAfter\<rparr>"

text \<open>\<open>map.get(key) ?? 0\<close>.\<close>

definition getOr0 :: "('k \<rightharpoonup> int) \<Rightarrow> 'k \<Rightarrow> int" where
  "getOr0 m k = (case m k of Some v \<Rightarrow> v | None \<Rightarrow> 0)"

text \<open>\<open>countBookings\<close>: the loop over the bookings, with the two maps it fills.\<close>

fun countBookingsLoop ::
  "Booking list \<Rightarrow> string \<Rightarrow> string \<Rightarrow> (DateKey \<rightharpoonup> int) \<Rightarrow> (WeekKey \<rightharpoonup> int)
     \<Rightarrow> (DateKey \<rightharpoonup> int) \<times> (WeekKey \<rightharpoonup> int)" where
  "countBookingsLoop [] hostId eventTypeId dayCount weekCount = (dayCount, weekCount)"
| "countBookingsLoop (booking # bookings) hostId eventTypeId dayCount weekCount =
     (if b_hostId booking \<noteq> hostId \<or> b_eventTypeId booking \<noteq> Some eventTypeId
      then countBookingsLoop bookings hostId eventTypeId dayCount weekCount
      else
        let dayKey = getDateKey (b_start booking);
            weekKey = getWeekKey (b_start booking)
        in countBookingsLoop bookings hostId eventTypeId
             (dayCount(dayKey \<mapsto> getOr0 dayCount dayKey + 1))
             (weekCount(weekKey \<mapsto> getOr0 weekCount weekKey + 1)))"

definition countBookings ::
  "Booking list \<Rightarrow> string \<Rightarrow> string \<Rightarrow> (DateKey \<rightharpoonup> int) \<times> (WeekKey \<rightharpoonup> int)" where
  "countBookings bookings hostId eventTypeId =
     countBookingsLoop bookings hostId eventTypeId Map.empty Map.empty"

text \<open>
  \<open>generateCandidateSlots\<close>. \<open>placeSlots\<close> is the \<open>while\<close> loop inside one free
  interval, with its variable \<open>slotStart\<close> and the output array \<open>slots\<close>; it need not
  end (a \<open>slotInterval\<close> of zero or less repeats a start that fits), and then the
  result is \<open>None\<close>. \<open>generateLoop\<close> is the loop over the free intervals.
\<close>

partial_function (option) placeSlots ::
  "int \<Rightarrow> int \<Rightarrow> int \<Rightarrow> string \<Rightarrow> int \<Rightarrow> int \<Rightarrow> int \<Rightarrow> Slot list \<Rightarrow> Slot list option" where
  "placeSlots intervalEnd slotLength slotInterval hostId bufferBefore bufferAfter slotStart slots =
     (if slotStart + slotLength + bufferAfter \<le> intervalEnd
      then
        (let slotEnd = slotStart + slotLength;
             slot = \<lparr>s_hostId = hostId, s_start = slotStart, s_end = slotEnd,
                     s_bufferBefore =
                       (if bufferBefore > 0
                        then Some \<lparr>i_start = slotStart - bufferBefore, i_end = slotStart\<rparr>
                        else None),
                     s_bufferAfter =
                       (if bufferAfter > 0
                        then Some \<lparr>i_start = slotEnd, i_end = slotEnd + bufferAfter\<rparr>
                        else None)\<rparr>
         in placeSlots intervalEnd slotLength slotInterval hostId bufferBefore bufferAfter
              (slotStart + slotInterval) (slots @ [slot]))
      else Some slots)"

fun generateLoop ::
  "Interval list \<Rightarrow> int \<Rightarrow> int \<Rightarrow> string \<Rightarrow> int \<Rightarrow> int \<Rightarrow> Slot list \<Rightarrow> Slot list option" where
  "generateLoop [] slotLength slotInterval hostId bufferBefore bufferAfter slots = Some slots"
| "generateLoop (interval # freeIntervals) slotLength slotInterval hostId bufferBefore bufferAfter
     slots =
     (case placeSlots (i_end interval) slotLength slotInterval hostId bufferBefore bufferAfter
             (i_start interval + bufferBefore) slots of
        None \<Rightarrow> None
      | Some slots' \<Rightarrow>
          generateLoop freeIntervals slotLength slotInterval hostId bufferBefore bufferAfter slots')"

definition generateCandidateSlots ::
  "Interval list \<Rightarrow> int \<Rightarrow> int \<Rightarrow> string \<Rightarrow> int \<Rightarrow> int \<Rightarrow> Slot list option" where
  "generateCandidateSlots freeIntervals slotLength slotInterval hostId bufferBefore bufferAfter =
     generateLoop freeIntervals slotLength slotInterval hostId bufferBefore bufferAfter []"

text \<open>
  Steps 1 to 4 for one host whose schedule was found: the schedule's intervals, less the
  busy intervals, clipped to the earliest start and, when set, to the latest end.
\<close>

definition busyIntervalsOf :: "GetAvailableSlotsInput \<Rightarrow> string \<Rightarrow> Interval list" where
  "busyIntervalsOf input hostId =
     (let hostBookings = filter (\<lambda>b. b_hostId b = hostId) (in_bookings input);
          hostBlocks = filter (\<lambda>b. bl_hostId b = hostId)
                         (case in_blocks input of None \<Rightarrow> [] | Some bs \<Rightarrow> bs)
      in map (\<lambda>booking.
                let bookingEventTypeConfig =
                      (case b_eventTypeId booking of
                         None \<Rightarrow> None
                       | Some eid \<Rightarrow>
                           if eid = [] then None
                           else (case in_eventTypes input of None \<Rightarrow> None | Some m \<Rightarrow> m eid));
                    bookingBufferBefore =
                      (case bookingEventTypeConfig of
                         None \<Rightarrow> 0
                       | Some c \<Rightarrow> (case bc_bufferBefore c of Some v \<Rightarrow> v | None \<Rightarrow> 0));
                    bookingBufferAfter =
                      (case bookingEventTypeConfig of
                         None \<Rightarrow> 0
                       | Some c \<Rightarrow> (case bc_bufferAfter c of Some v \<Rightarrow> v | None \<Rightarrow> 0))
                in inflateInterval \<lparr>i_start = b_start booking, i_end = b_end booking\<rparr>
                     bookingBufferBefore bookingBufferAfter) hostBookings
         @ map (\<lambda>block. \<lparr>i_start = bl_start block, i_end = bl_end block\<rparr>) hostBlocks)"

definition hostFreeIntervals ::
  "TzOffset \<Rightarrow> GetAvailableSlotsInput \<Rightarrow> int \<Rightarrow> EventType \<Rightarrow> string \<Rightarrow> Schedule
     \<Rightarrow> Interval list" where
  "hostFreeIntervals tz input currentTime config hostId schedule =
     (let minimumNotice = minimumNoticeOf config;
          maximumLeadTime = et_maximumLeadTime config;
          freeIntervals = expandSchedule tz schedule (in_range input);
          busyIntervals = busyIntervalsOf input hostId;
          freeIntervals = (if length busyIntervals > 0
                           then subtractIntervals freeIntervals busyIntervals
                           else freeIntervals);
          earliestStart = currentTime + minimumNotice;
          freeIntervals =
            filter (\<lambda>interval. i_start interval < i_end interval)
              (map (\<lambda>interval. \<lparr>i_start = max (i_start interval) earliestStart,
                                 i_end = i_end interval\<rparr>) freeIntervals)
      in case maximumLeadTime of
           None \<Rightarrow> freeIntervals
         | Some lead \<Rightarrow>
             let latestEnd = currentTime + lead
             in filter (\<lambda>interval. i_start interval < i_end interval)
                  (map (\<lambda>interval. \<lparr>i_start = i_start interval,
                                     i_end = min (i_end interval) latestEnd\<rparr>) freeIntervals))"

text \<open>
  Step 6, the loop over the candidate slots when a cap is set, with the output array
  \<open>allSlots\<close> and the two maps of candidate counts.
\<close>

fun capLoop ::
  "int option \<Rightarrow> int option \<Rightarrow> (DateKey \<rightharpoonup> int) \<Rightarrow> (WeekKey \<rightharpoonup> int) \<Rightarrow> Slot list
     \<Rightarrow> Slot list \<Rightarrow> (DateKey \<rightharpoonup> int) \<Rightarrow> (WeekKey \<rightharpoonup> int) \<Rightarrow> Slot list" where
  "capLoop maxPerDay maxPerWeek dayCount weekCount [] allSlots candidateDayCount
     candidateWeekCount = allSlots"
| "capLoop maxPerDay maxPerWeek dayCount weekCount (slot # candidateSlots) allSlots
     candidateDayCount candidateWeekCount =
     (let dayKey = getDateKey (s_start slot);
          weekKey = getWeekKey (s_start slot)
      in if (case maxPerDay of
               None \<Rightarrow> False
             | Some m \<Rightarrow> getOr0 dayCount dayKey + getOr0 candidateDayCount dayKey \<ge> m)
         then capLoop maxPerDay maxPerWeek dayCount weekCount candidateSlots allSlots
                candidateDayCount candidateWeekCount
         else if (case maxPerWeek of
                    None \<Rightarrow> False
                  | Some m \<Rightarrow> getOr0 weekCount weekKey + getOr0 candidateWeekCount weekKey \<ge> m)
         then capLoop maxPerDay maxPerWeek dayCount weekCount candidateSlots allSlots
                candidateDayCount candidateWeekCount
         else capLoop maxPerDay maxPerWeek dayCount weekCount candidateSlots (allSlots @ [slot])
                (candidateDayCount(dayKey \<mapsto> getOr0 candidateDayCount dayKey + 1))
                (candidateWeekCount(weekKey \<mapsto> getOr0 candidateWeekCount weekKey + 1)))"

text \<open>The slots that \<open>capLoop\<close> pushes, apart from the array it pushes them to.\<close>

fun capAdmit ::
  "int option \<Rightarrow> int option \<Rightarrow> (DateKey \<rightharpoonup> int) \<Rightarrow> (WeekKey \<rightharpoonup> int) \<Rightarrow> Slot list
     \<Rightarrow> (DateKey \<rightharpoonup> int) \<Rightarrow> (WeekKey \<rightharpoonup> int) \<Rightarrow> Slot list" where
  "capAdmit maxPerDay maxPerWeek dayCount weekCount [] candidateDayCount candidateWeekCount = []"
| "capAdmit maxPerDay maxPerWeek dayCount weekCount (slot # candidateSlots)
     candidateDayCount candidateWeekCount =
     (let dayKey = getDateKey (s_start slot);
          weekKey = getWeekKey (s_start slot)
      in if (case maxPerDay of
               None \<Rightarrow> False
             | Some m \<Rightarrow> getOr0 dayCount dayKey + getOr0 candidateDayCount dayKey \<ge> m)
         then capAdmit maxPerDay maxPerWeek dayCount weekCount candidateSlots
                candidateDayCount candidateWeekCount
         else if (case maxPerWeek of
                    None \<Rightarrow> False
                  | Some m \<Rightarrow> getOr0 weekCount weekKey + getOr0 candidateWeekCount weekKey \<ge> m)
         then capAdmit maxPerDay maxPerWeek dayCount weekCount candidateSlots
                candidateDayCount candidateWeekCount
         else slot # capAdmit maxPerDay maxPerWeek dayCount weekCount candidateSlots
                (candidateDayCount(dayKey \<mapsto> getOr0 candidateDayCount dayKey + 1))
                (candidateWeekCount(weekKey \<mapsto> getOr0 candidateWeekCount weekKey + 1)))"

text \<open>The body of the loop over the hosts: \<open>allSlots\<close> after one host.\<close>

definition processHost ::
  "TzOffset \<Rightarrow> GetAvailableSlotsInput \<Rightarrow> int \<Rightarrow> HostSchedules \<Rightarrow> Slot list \<Rightarrow> Slot list option" where
  "processHost tz input currentTime hostSchedules allSlots =
     (let hostId = hs_hostId hostSchedules;
          config = resolveHostConfig (in_eventType input) hostId;
          scheduleKey = scheduleKeyOf config;
          slotLength = et_length config;
          slotInterval = slotIntervalOf config;
          bufferBefore = bufferBeforeOf config;
          bufferAfter = bufferAfterOf config;
          maxPerDay = et_maxPerDay config;
          maxPerWeek = et_maxPerWeek config
      in case hs_schedules hostSchedules scheduleKey of
           None \<Rightarrow> Some allSlots
         | Some schedule \<Rightarrow>
             (let freeIntervals = hostFreeIntervals tz input currentTime config hostId schedule
              in (case generateCandidateSlots freeIntervals slotLength slotInterval hostId
                         bufferBefore bufferAfter of
                    None \<Rightarrow> None
                  | Some candidateSlots \<Rightarrow>
                      (if maxPerDay \<noteq> None \<or> maxPerWeek \<noteq> None
                       then
                         (let counts = countBookings (in_bookings input) hostId
                                         (et_id (in_eventType input))
                          in Some (capLoop maxPerDay maxPerWeek (fst counts) (snd counts)
                                     candidateSlots allSlots Map.empty Map.empty))
                       else Some (allSlots @ candidateSlots)))))"

fun hostsLoop ::
  "TzOffset \<Rightarrow> GetAvailableSlotsInput \<Rightarrow> int \<Rightarrow> HostSchedules list \<Rightarrow> Slot list
     \<Rightarrow> Slot list option" where
  "hostsLoop tz input currentTime [] allSlots = Some allSlots"
| "hostsLoop tz input currentTime (hostSchedules # hosts) allSlots =
     (case processHost tz input currentTime hostSchedules allSlots of
        None \<Rightarrow> None
      | Some allSlots' \<Rightarrow> hostsLoop tz input currentTime hosts allSlots')"

text \<open>
  The final comparator; \<open>String.prototype.localeCompare\<close> is a parameter.
\<close>

definition compareSlots :: "(string \<Rightarrow> string \<Rightarrow> int) \<Rightarrow> Slot \<Rightarrow> Slot \<Rightarrow> int" where
  "compareSlots localeCompare a b =
     (let startDiff = s_start a - s_start b
      in if startDiff \<noteq> 0 then startDiff else localeCompare (s_hostId a) (s_hostId b))"

text \<open>
  \<open>getAvailableSlots input now\<close>; the caller passes the clock reading as \<open>now\<close> when
  the source's argument is absent. The result is \<open>None\<close> when the call does not
  return.
\<close>

definition getAvailableSlots ::
  "TzOffset \<Rightarrow> (string \<Rightarrow> string \<Rightarrow> int) \<Rightarrow> GetAvailableSlotsInput \<Rightarrow> int \<Rightarrow> Slot list option" where
  "getAvailableSlots tz localeCompare input now =
     (let currentTime = now
      in case hostsLoop tz input currentTime (in_hosts input) [] of
           None \<Rightarrow> None
         | Some allSlots \<Rightarrow> Some (jsSort (compareSlots localeCompare) allSlots))"








section \<open>Sample inputs of getAvailableSlots\<close>












section \<open>Theorems\<close>

subsection \<open>Interval arithmetic\<close>

lemma cloneInterval_id [simp]: "cloneInterval (x::Interval) = x"
  by (simp add: cloneInterval_def)

lemma set_insertBy [simp]: "set (insertBy cmp x ys) = insert x (set ys)"
  by (induction ys) auto

lemma set_jsSort [simp]: "set (jsSort cmp xs) = set xs"
  by (induction xs) auto

lemma length_insertBy [simp]: "length (insertBy cmp x ys) = Suc (length ys)"
  by (induction ys) auto

lemma length_jsSort [simp]: "length (jsSort cmp xs) = length xs"
  by (induction xs) auto

lemma insertBy_not_Nil [simp]: "insertBy cmp x ys \<noteq> []"
  by (cases ys) auto

lemma jsSort_Nil_iff [simp]: "jsSort cmp xs = [] \<longleftrightarrow> xs = []"
  by (cases xs) auto



lemma jsSort_sorted_id:
  "sorted_wrt (\<lambda>a b. cmp a b \<le> 0) xs \<Longrightarrow> jsSort cmp xs = xs"
proof (induction xs)
  case Nil
  then show ?case by simp
next
  case (Cons x xs)
  then have "jsSort cmp xs = xs" by simp
  moreover have "insertBy cmp x xs = x # xs"
    using Cons.prems by (cases xs) auto
  ultimately show ?case by simp
qed

lemma insertBy_sorted_start:
  "sorted (map i_start ys) \<Longrightarrow> sorted (map i_start (insertBy compareStartEnd x ys))"
proof (induction ys)
  case Nil
  then show ?case by simp
next
  case (Cons y ys)
  show ?case
  proof (cases "compareStartEnd x y \<le> 0")
    case True
    then have "i_start x \<le> i_start y"
      by (auto simp: compareStartEnd_def Let_def split: if_splits)
    with Cons.prems True show ?thesis by auto
  next
    case False
    then have "i_start y \<le> i_start x"
      by (auto simp: compareStartEnd_def Let_def split: if_splits)
    with Cons False show ?thesis by auto
  qed
qed

lemma jsSort_sorted_start: "sorted (map i_start (jsSort compareStartEnd xs))"
  by (induction xs) (auto simp: insertBy_sorted_start)

lemma mergeLoop_sweep: "mergeLoop (ms @ [cur]) xs = ms @ sweep cur xs"
proof (induction xs arbitrary: ms cur)
  case Nil
  then show ?case by simp
next
  case (Cons x xs)
  have "mergeLoop ((ms @ [cur]) @ [x]) xs = (ms @ [cur]) @ sweep x xs"
    by (rule Cons.IH)
  then show ?case
    using Cons.IH[of ms] by (simp add: Let_def)
qed

lemma covered_Nil [simp]: "covered [] = {}"
  by (simp add: covered_def)

lemma covered_Cons: "covered (x # xs) = {t. i_start x \<le> t \<and> t < i_end x} \<union> covered xs"
  by (auto simp: covered_def)

lemma covered_append: "covered (xs @ ys) = covered xs \<union> covered ys"
  by (auto simp: covered_def)

lemma covered_filter_nonempty:
  "covered (filter (\<lambda>x. i_start x < i_end x) xs) = covered xs"
  by (auto simp: covered_def)

lemma covered_set_cong: "set xs = set ys \<Longrightarrow> covered xs = covered ys"
  by (simp add: covered_def)

lemma sweep_hd: "i_start (hd (sweep cur xs)) = i_start cur"
  by (induction xs arbitrary: cur) auto

lemma sweep_nonempty: "sweep cur xs \<noteq> []"
  by (induction xs arbitrary: cur) auto

lemma separated_Cons:
  "separated (x # ys) \<longleftrightarrow>
     i_start x < i_end x \<and> (ys \<noteq> [] \<longrightarrow> i_end x < i_start (hd ys)) \<and> separated ys"
  by (cases ys) auto

lemma sweep_separated:
  "i_start cur < i_end cur \<Longrightarrow> \<forall>x \<in> set xs. i_start x < i_end x \<Longrightarrow>
   separated (sweep cur xs)"
proof (induction xs arbitrary: cur)
  case Nil
  then show ?case by simp
next
  case (Cons x xs)
  then show ?case
    by (auto simp: separated_Cons[of cur] sweep_hd sweep_nonempty)
qed

lemma sweep_covered:
  "i_start cur < i_end cur \<Longrightarrow> \<forall>x \<in> set xs. i_start x < i_end x \<Longrightarrow>
   sorted (map i_start (cur # xs)) \<Longrightarrow>
   covered (sweep cur xs) = covered (cur # xs)"
proof (induction xs arbitrary: cur)
  case Nil
  then show ?case by simp
next
  case (Cons x xs)
  show ?case
  proof (cases "i_start x \<le> i_end cur")
    case le: True
    show ?thesis
    proof (cases "i_end x > i_end cur")
      case True
      let ?c = "cur\<lparr>i_end := i_end x\<rparr>"
      have "covered (sweep ?c xs) = covered (?c # xs)"
        using Cons.prems True by (intro Cons.IH) auto
      moreover have "covered (?c # xs) = covered (cur # x # xs)"
        using le True Cons.prems by (auto simp: covered_Cons)
      ultimately show ?thesis using le True by simp
    next
      case False
      have "covered (sweep cur xs) = covered (cur # xs)"
        using Cons.prems by (intro Cons.IH) auto
      moreover have "covered (cur # xs) = covered (cur # x # xs)"
        using le False Cons.prems by (auto simp: covered_Cons)
      ultimately show ?thesis using le False by simp
    qed
  next
    case False
    have "covered (sweep x xs) = covered (x # xs)"
      using Cons.prems by (intro Cons.IH) auto
    then show ?thesis using False by (simp add: covered_Cons)
  qed
qed


lemma mergeIntervals_sweep:
  "filter (\<lambda>x. i_start x < i_end x) X = v # vs \<Longrightarrow>
   mergeIntervals X =
     sweep (hd (jsSort compareStartEnd (v # vs))) (tl (jsSort compareStartEnd (v # vs)))"
proof -
  assume a: "filter (\<lambda>x. i_start x < i_end x) X = v # vs"
  then have "X \<noteq> []" by auto
  moreover have "map cloneInterval (v # vs) = v # vs"
    by (simp add: map_idI)
  ultimately show ?thesis
    using a mergeLoop_sweep[of "[]"] by (simp add: mergeIntervals_def Let_def)
qed

lemma mergeIntervals_empty:
  "filter (\<lambda>x. i_start x < i_end x) X = [] \<Longrightarrow> mergeIntervals X = []"
  by (simp add: mergeIntervals_def Let_def)

lemma hd_tl_mem: "xs \<noteq> [] \<Longrightarrow> hd xs \<in> set xs \<and> set (tl xs) \<subseteq> set xs"
  by (cases xs) auto

lemma mergeIntervals_separated: "separated (mergeIntervals X)"
proof (cases "filter (\<lambda>x. i_start x < i_end x) X")
  case Nil
  then show ?thesis by (simp add: mergeIntervals_empty)
next
  case (Cons v vs)
  define s where "s = jsSort compareStartEnd (v # vs)"
  have ne: "s \<noteq> []" by (simp add: s_def)
  have "set s = set (filter (\<lambda>x. i_start x < i_end x) X)"
    unfolding s_def Cons by (rule set_jsSort)
  then have all: "\<forall>x \<in> set s. i_start x < i_end x" by auto
  with hd_tl_mem[OF ne] have "separated (sweep (hd s) (tl s))"
    by (intro sweep_separated) auto
  then show ?thesis using mergeIntervals_sweep[OF Cons] by (simp add: s_def)
qed

lemma mergeIntervals_covered: "covered (mergeIntervals X) = covered X"
proof (cases "filter (\<lambda>x. i_start x < i_end x) X")
  case Nil
  have "covered X = covered (filter (\<lambda>x. i_start x < i_end x) X)"
    by (simp only: covered_filter_nonempty)
  also have "\<dots> = {}" unfolding Nil by simp
  finally show ?thesis using Nil by (simp add: mergeIntervals_empty)
next
  case (Cons v vs)
  define s where "s = jsSort compareStartEnd (v # vs)"
  have ne: "s \<noteq> []" by (simp add: s_def)
  have seteq: "set s = set (filter (\<lambda>x. i_start x < i_end x) X)"
    unfolding s_def Cons by (rule set_jsSort)
  then have all: "\<forall>x \<in> set s. i_start x < i_end x" by auto
  have split: "hd s # tl s = s" using ne by simp
  have "sorted (map i_start s)"
    unfolding s_def by (rule jsSort_sorted_start)
  then have "sorted (map i_start (hd s # tl s))"
    by (simp only: split)
  with all hd_tl_mem[OF ne] have "covered (sweep (hd s) (tl s)) = covered (hd s # tl s)"
    by (intro sweep_covered) auto
  also have "\<dots> = covered (filter (\<lambda>x. i_start x < i_end x) X)"
    unfolding split using seteq by (rule covered_set_cong)
  also have "\<dots> = covered X" by (rule covered_filter_nonempty)
  finally show ?thesis using mergeIntervals_sweep[OF Cons] by (simp add: s_def)
qed

lemma separated_sorted_wrt:
  "separated xs \<Longrightarrow>
   sorted_wrt (\<lambda>a b. i_end a < i_start b) xs \<and> (\<forall>x \<in> set xs. i_start x < i_end x)"
proof (induction xs rule: separated.induct)
  case 1
  then show ?case by simp
next
  case (2 x)
  then show ?case by simp
next
  case (3 x y zs)
  then have ih: "sorted_wrt (\<lambda>a b. i_end a < i_start b) (y # zs)"
    "\<forall>z \<in> set (y # zs). i_start z < i_end z" by auto
  have "\<forall>z \<in> set (y # zs). i_end x < i_start z"
  proof
    fix z assume "z \<in> set (y # zs)"
    then consider "z = y" | "z \<in> set zs" by auto
    then show "i_end x < i_start z"
    proof cases
      case 1
      then show ?thesis using "3.prems" by simp
    next
      case 2
      then have "i_end y < i_start z" using ih(1) by auto
      moreover have "i_end x < i_start y" "i_start y < i_end y"
        using "3.prems" by (auto simp: separated_Cons)
      ultimately show ?thesis by linarith
    qed
  qed
  with ih "3.prems" show ?case by auto
qed

lemma separated_sorted_start: "separated xs \<Longrightarrow> sorted (map i_start xs)"
proof -
  assume "separated xs"
  then have s: "sorted_wrt (\<lambda>a b. i_end a < i_start b) xs"
    and n: "\<forall>x \<in> set xs. i_start x < i_end x"
    using separated_sorted_wrt by auto
  have "sorted_wrt (\<lambda>a b. i_start a \<le> i_start b) xs"
  proof (rule sorted_wrt_mono_rel[OF _ s])
    fix a b assume "a \<in> set xs" "b \<in> set xs" "i_end a < i_start b"
    then show "i_start a \<le> i_start b" using n by fastforce
  qed
  then show ?thesis by (simp add: sorted_map)
qed

lemma separated_sweep_id: "separated (a # rest) \<Longrightarrow> sweep a rest = a # rest"
  by (induction rest arbitrary: a) auto

lemma separated_jsSort_id: "separated xs \<Longrightarrow> jsSort compareStartEnd xs = xs"
proof -
  assume "separated xs"
  then have s: "sorted_wrt (\<lambda>a b. i_end a < i_start b) xs"
    and n: "\<forall>x \<in> set xs. i_start x < i_end x"
    using separated_sorted_wrt by auto
  have "sorted_wrt (\<lambda>a b. compareStartEnd a b \<le> 0) xs"
  proof (rule sorted_wrt_mono_rel[OF _ s])
    fix a b assume "a \<in> set xs" "b \<in> set xs" "i_end a < i_start b"
    then have "i_start a < i_start b" using n by fastforce
    then show "compareStartEnd a b \<le> 0" by (simp add: compareStartEnd_def Let_def)
  qed
  then show ?thesis by (rule jsSort_sorted_id)
qed

lemma separated_merge_id: "separated M \<Longrightarrow> mergeIntervals M = M"
proof (cases M)
  case Nil
  then show ?thesis by (simp add: mergeIntervals_def)
next
  case (Cons a rest)
  assume sep: "separated M"
  then have n: "\<forall>x \<in> set M. i_start x < i_end x"
    using separated_sorted_wrt by auto
  then have f: "filter (\<lambda>x. i_start x < i_end x) M = a # rest"
    using Cons by simp
  have "jsSort compareStartEnd (a # rest) = a # rest"
    using separated_jsSort_id[OF sep] unfolding Cons .
  then have "mergeIntervals M = sweep a rest"
    using mergeIntervals_sweep[OF f] by simp
  then show ?thesis using sep Cons by (simp add: separated_sweep_id)
qed

lemma intersectLoop_skip:
  "separated (a # as) \<Longrightarrow> intersectLoop as (a # as) = intersectLoop as as"
  by (cases as) (auto simp: Let_def separated_Cons)

lemma intersectLoop_self: "separated M \<Longrightarrow> intersectLoop M M = M"
proof (induction M)
  case Nil
  then show ?case by simp
next
  case (Cons a as)
  then have sep: "separated as" and ne: "i_start a < i_end a"
    by (auto simp: separated_Cons)
  have "intersectLoop (a # as) (a # as) = a # intersectLoop as (a # as)"
    using ne by (simp add: Let_def)
  also have "\<dots> = a # intersectLoop as as"
    using Cons.prems by (simp add: intersectLoop_skip)
  finally show ?case using Cons.IH sep by simp
qed

text \<open>
  C3. For every interval list \<open>X\<close>, \<open>mergeIntervals X\<close> is sorted ascending by start; any
  two of its elements are disjoint and not adjacent (the earlier one ends strictly before
  the later one starts); and it covers exactly the instants covered by the non-empty
  intervals of \<open>X\<close>.
\<close>

theorem mergeIntervals_sorted_disjoint_cover:
  "sorted (map i_start (mergeIntervals X)) \<and>
   (\<forall>i j. i < j \<and> j < length (mergeIntervals X) \<longrightarrow>
      i_end (mergeIntervals X ! i) < i_start (mergeIntervals X ! j)) \<and>
   covered (mergeIntervals X) = covered (filter (\<lambda>x. i_start x < i_end x) X)"
proof -
  have sep: "separated (mergeIntervals X)" by (rule mergeIntervals_separated)
  then have "sorted_wrt (\<lambda>a b. i_end a < i_start b) (mergeIntervals X)"
    using separated_sorted_wrt by blast
  then have "\<forall>i j. i < j \<and> j < length (mergeIntervals X) \<longrightarrow>
      i_end (mergeIntervals X ! i) < i_start (mergeIntervals X ! j)"
    by (auto simp: sorted_wrt_iff_nth_less)
  then show ?thesis
    using sep by (simp add: separated_sorted_start mergeIntervals_covered covered_filter_nonempty)
qed

theorem mergeIntervals_sorted_disjoint_cover_witness:
  "mergeIntervals [\<lparr>i_start = 5, i_end = 7\<rparr>, \<lparr>i_start = 1, i_end = 3\<rparr>,
                   \<lparr>i_start = 3, i_end = 4\<rparr>, \<lparr>i_start = 9, i_end = 9\<rparr>]
     = [\<lparr>i_start = 1, i_end = 4\<rparr>, \<lparr>i_start = 5, i_end = 7\<rparr>] \<and>
   (0::nat) < 1 \<and>
   1 < length (mergeIntervals [\<lparr>i_start = 5, i_end = 7\<rparr>, \<lparr>i_start = 1, i_end = 3\<rparr>,
                   \<lparr>i_start = 3, i_end = 4\<rparr>, \<lparr>i_start = 9, i_end = 9\<rparr>]) \<and>
   i_end (mergeIntervals [\<lparr>i_start = 5, i_end = 7\<rparr>, \<lparr>i_start = 1, i_end = 3\<rparr>,
                   \<lparr>i_start = 3, i_end = 4\<rparr>, \<lparr>i_start = 9, i_end = 9\<rparr>] ! 0)
     < i_start (mergeIntervals [\<lparr>i_start = 5, i_end = 7\<rparr>, \<lparr>i_start = 1, i_end = 3\<rparr>,
                   \<lparr>i_start = 3, i_end = 4\<rparr>, \<lparr>i_start = 9, i_end = 9\<rparr>] ! 1) \<and>
   covered [\<lparr>i_start = 1, i_end = 4\<rparr>, \<lparr>i_start = 5, i_end = 7\<rparr>]
     = covered [\<lparr>i_start = 5, i_end = 7\<rparr>, \<lparr>i_start = 1, i_end = 3\<rparr>,
                \<lparr>i_start = 3, i_end = 4\<rparr>]"
proof -
  let ?X = "[\<lparr>i_start = 5, i_end = 7\<rparr>, \<lparr>i_start = 1, i_end = 3\<rparr>,
             \<lparr>i_start = 3, i_end = 4\<rparr>, \<lparr>i_start = 9, i_end = (9::int)\<rparr>]"
  have e: "mergeIntervals ?X = [\<lparr>i_start = 1, i_end = 4\<rparr>, \<lparr>i_start = 5, i_end = 7\<rparr>]"
    by (simp add: mergeIntervals_def compareStartEnd_def Let_def)
  have h: "(0::nat) < 1 \<and> 1 < length (mergeIntervals ?X)"
    by (simp add: e)
  have t: "(\<forall>i j. i < j \<and> j < length (mergeIntervals ?X) \<longrightarrow>
              i_end (mergeIntervals ?X ! i) < i_start (mergeIntervals ?X ! j)) \<and>
           covered (mergeIntervals ?X) = covered (filter (\<lambda>x. i_start x < i_end x) ?X)"
    using mergeIntervals_sorted_disjoint_cover[of ?X] by blast
  from t h have "i_end (mergeIntervals ?X ! 0) < i_start (mergeIntervals ?X ! 1)"
    by blast
  moreover from t have "covered [\<lparr>i_start = 1, i_end = 4\<rparr>, \<lparr>i_start = 5, i_end = 7\<rparr>]
     = covered [\<lparr>i_start = 5, i_end = 7\<rparr>, \<lparr>i_start = 1, i_end = 3\<rparr>,
                \<lparr>i_start = 3, i_end = (4::int)\<rparr>]"
    by (simp add: e)
  ultimately show ?thesis using e h by simp
qed

text \<open>
  C8. For every interval list \<open>X\<close>: merging twice is merging once, subtracting nothing
  is merging, and intersecting a list with itself is merging, as equations on the
  returned lists.
\<close>

theorem interval_ops_idempotence:
  "mergeIntervals (mergeIntervals X) = mergeIntervals X \<and>
   subtractIntervals X [] = mergeIntervals X \<and>
   intersectIntervals X X = mergeIntervals X"
proof -
  have sep: "separated (mergeIntervals X)" by (rule mergeIntervals_separated)
  have 1: "mergeIntervals (mergeIntervals X) = mergeIntervals X"
    using sep by (rule separated_merge_id)
  have 2: "subtractIntervals X [] = mergeIntervals X"
    by (simp add: subtractIntervals_def mergeIntervals_def)
  have 3: "intersectIntervals X X = mergeIntervals X"
  proof (cases X)
    case Nil
    then show ?thesis by (simp add: intersectIntervals_def mergeIntervals_def)
  next
    case (Cons x xs)
    then show ?thesis using sep by (simp add: intersectIntervals_def intersectLoop_self)
  qed
  from 1 2 3 show ?thesis by simp
qed

subsection \<open>checkLimit\<close>

lemma ulpOf_small: "n < 9007199254740992 \<Longrightarrow> ulpOf n = 1"
  by (subst ulpOf.simps) simp

lemma ulpOf_next:
  "9007199254740992 \<le> n \<Longrightarrow> n < 18014398509481984 \<Longrightarrow> ulpOf n = 2"
  by (subst ulpOf.simps) (simp add: ulpOf_small)

lemma roundNat_small: "n < 9007199254740992 \<Longrightarrow> roundNat n = n"
  by (simp add: roundNat_def ulpOf_small)

lemma roundNat_next:
  assumes "9007199254740992 \<le> n" and "n < 18014398509481984"
  shows "9007199254740992 \<le> roundNat n"
proof -
  have q: "4503599627370496 \<le> n div 2" using assms(1) by simp
  have "(n div 2) * 2 \<le> roundNat n"
    by (simp add: roundNat_def ulpOf_next[OF assms] Let_def)
  with q show ?thesis by linarith
qed

lemma roundDouble_small: "\<bar>k\<bar> < 9007199254740992 \<Longrightarrow> roundDouble k = k"
proof -
  assume a: "\<bar>k\<bar> < 9007199254740992"
  then have "nat \<bar>k\<bar> < 9007199254740992" by simp
  then have "roundDouble k = sgn k * int (nat \<bar>k\<bar>)"
    by (simp add: roundDouble_def roundNat_small)
  also have "\<dots> = k" by (cases "k < 0") (auto simp: sgn_if)
  finally show ?thesis .
qed

lemma roundDouble_nonpos: "k \<le> 0 \<Longrightarrow> roundDouble k \<le> 0"
  by (cases "k = 0") (auto simp: roundDouble_def sgn_if)

lemma roundDouble_next:
  assumes "9007199254740992 \<le> k" and "k < 18014398509481984"
  shows "9007199254740992 \<le> roundDouble k"
proof -
  have "9007199254740992 \<le> nat \<bar>k\<bar>" "nat \<bar>k\<bar> < 18014398509481984"
    using assms by simp_all
  then have "9007199254740992 \<le> roundNat (nat \<bar>k\<bar>)" by (rule roundNat_next)
  then have "9007199254740992 \<le> int (roundNat (nat \<bar>k\<bar>))" by simp
  moreover have "sgn k = 1" using assms(1) by simp
  ultimately show ?thesis by (simp add: roundDouble_def)
qed

text \<open>
  The comparison of the rounded sum with a limit below \<open>2 ^ 53\<close> is the comparison of
  the exact sum.
\<close>

lemma jsAdd_exceeds:
  assumes "lim < 9007199254740992" and "0 \<le> a" and "a < 9007199254740992"
    and "0 \<le> b" and "b < 9007199254740992"
  shows "jsAdd a b > lim \<longleftrightarrow> a + b > lim"
proof (cases "a + b < 9007199254740992")
  case True
  then have "jsAdd a b = a + b"
    using assms by (simp add: jsAdd_def roundDouble_small)
  then show ?thesis by simp
next
  case False
  then have "9007199254740992 \<le> roundDouble (a + b)"
    using assms by (intro roundDouble_next) simp_all
  then show ?thesis using False assms(1) by (simp add: jsAdd_def)
qed

lemma max0_jsSub:
  assumes "\<bar>lim\<bar> < 9007199254740992" and "0 \<le> used"
  shows "max 0 (jsSub lim used) = max 0 (lim - used)"
proof (cases "\<bar>lim - used\<bar> < 9007199254740992")
  case True
  then show ?thesis by (simp add: jsSub_def roundDouble_small)
next
  case False
  then have neg: "lim - used \<le> 0" using assms by linarith
  then have "roundDouble (lim - used) \<le> 0" by (rule roundDouble_nonpos)
  with neg show ?thesis by (simp add: jsSub_def)
qed

text \<open>
  C7 (amended). For an integer limit of magnitude below \<open>2 ^ 53\<close> and non-negative
  integers \<open>used\<close> and \<open>consume\<close> below \<open>2 ^ 53\<close>, \<open>checkLimit\<close> denies with
  remaining \<open>max 0 (limit - used)\<close> and no obligation when \<open>used + consume > limit\<close>,
  and otherwise allows with remaining \<open>limit - used - consume\<close> and a consume
  obligation of amount \<open>consume\<close>; for an unlimited limit it allows with unlimited
  remaining and no obligation, whatever \<open>used\<close> and \<open>consume\<close> are. \<open>consume\<close> is
  the amount given, or 1 when none is given.
\<close>

theorem checkLimit_cases:
  assumes "\<bar>lim\<bar> < 9007199254740992"
    and "0 \<le> used" and "used < 9007199254740992"
    and "0 \<le> (case c of None \<Rightarrow> 1 | Some k \<Rightarrow> k)"
    and "(case c of None \<Rightarrow> 1 | Some k \<Rightarrow> k) < 9007199254740992"
  shows
  "checkLimit (Some lim) used c =
     (if used + (case c of None \<Rightarrow> 1 | Some k \<Rightarrow> k) > lim
      then \<lparr>allowed = False, remaining = Some (max 0 (lim - used)), obligation = None\<rparr>
      else \<lparr>allowed = True,
            remaining = Some (lim - used - (case c of None \<Rightarrow> 1 | Some k \<Rightarrow> k)),
            obligation = Some \<lparr>ob_type = ''consume'',
                                ob_params = [(''amount'', (case c of None \<Rightarrow> 1 | Some k \<Rightarrow> k))]\<rparr>\<rparr>)
   \<and> checkLimit None used' c' = \<lparr>allowed = True, remaining = None, obligation = None\<rparr>"
proof -
  define consume where "consume = (case c of None \<Rightarrow> 1 | Some k \<Rightarrow> k)"
  have cb: "0 \<le> consume" "consume < 9007199254740992"
    using assms(4,5) by (simp_all add: consume_def)
  have lb: "lim < 9007199254740992" using assms(1) by linarith
  have ex: "jsAdd used consume > lim \<longleftrightarrow> used + consume > lim"
    using lb assms(2,3) cb by (rule jsAdd_exceeds)
  have mx: "max 0 (jsSub lim used) = max 0 (lim - used)"
    using assms(1,2) by (rule max0_jsSub)
  have al: "jsSub (jsSub lim used) consume = lim - used - consume"
    if fits: "\<not> used + consume > lim"
  proof -
    have "\<bar>lim - used\<bar> < 9007199254740992" using fits assms(2) cb(1) lb by linarith
    then have 1: "jsSub lim used = lim - used" by (simp add: jsSub_def roundDouble_small)
    have "\<bar>lim - used - consume\<bar> < 9007199254740992"
      using fits assms(2) cb(1) lb by linarith
    then have "jsSub (lim - used) consume = lim - used - consume"
      by (simp add: jsSub_def roundDouble_small)
    then show ?thesis by (simp only: 1)
  qed
  have unl: "checkLimit None used' c' = \<lparr>allowed = True, remaining = None, obligation = None\<rparr>"
    by (simp add: checkLimit_def Let_def)
  have fin: "checkLimit (Some lim) used c =
     (if used + consume > lim
      then \<lparr>allowed = False, remaining = Some (max 0 (lim - used)), obligation = None\<rparr>
      else \<lparr>allowed = True, remaining = Some (lim - used - consume),
            obligation = Some \<lparr>ob_type = ''consume'', ob_params = [(''amount'', consume)]\<rparr>\<rparr>)"
  proof (cases "used + consume > lim")
    case True
    then show ?thesis
      using ex mx by (simp add: checkLimit_def Let_def consume_def[symmetric])
  next
    case False
    then show ?thesis
      using ex al by (simp add: checkLimit_def Let_def consume_def[symmetric])
  qed
  from fin unl show ?thesis unfolding consume_def by simp
qed

theorem checkLimit_cases_witness:
  "\<bar>100::int\<bar> < 9007199254740992 \<and> (0::int) \<le> 50 \<and> (50::int) < 9007199254740992 \<and>
   (0::int) \<le> (case Some 1 of None \<Rightarrow> 1 | Some k \<Rightarrow> k) \<and>
   (case Some (1::int) of None \<Rightarrow> 1 | Some k \<Rightarrow> k) < 9007199254740992 \<and>
   checkLimit (Some 100) 50 (Some 1)
     = \<lparr>allowed = True, remaining = Some 49,
        obligation = Some \<lparr>ob_type = ''consume'', ob_params = [(''amount'', 1)]\<rparr>\<rparr> \<and>
   checkLimit (Some 100) 100 None
     = \<lparr>allowed = False, remaining = Some 0, obligation = None\<rparr>"
  using checkLimit_cases[of 100 50 "Some 1"] checkLimit_cases[of 100 100 None]
  by simp

text \<open>
  The claim C7 as stated fails where double arithmetic rounds. At limit and used
  \<open>2 ^ 53\<close> with consume 1 the sum rounds down to the limit, and the call allows with
  remaining -1 although the exact sum exceeds the limit. At limit \<open>2 ^ 53 - 1\<close> with the
  negative used -2 and consume 3, and with used 0 and the negative consume -2, the call
  allows with a remaining that is not \<open>limit - used - consume\<close>.
\<close>

theorem checkLimit_rounding_counterexample:
  "(9007199254740992::int) + 1 > 9007199254740992 \<and>
   checkLimit (Some 9007199254740992) 9007199254740992 (Some 1)
     = \<lparr>allowed = True, remaining = Some (- 1),
        obligation = Some \<lparr>ob_type = ''consume'', ob_params = [(''amount'', 1)]\<rparr>\<rparr> \<and>
   (9007199254740991::int) - (- 2) - 3 = 9007199254740990 \<and>
   checkLimit (Some 9007199254740991) (- 2) (Some 3)
     = \<lparr>allowed = True, remaining = Some 9007199254740989,
        obligation = Some \<lparr>ob_type = ''consume'', ob_params = [(''amount'', 3)]\<rparr>\<rparr> \<and>
   (9007199254740991::int) - 0 - (- 2) = 9007199254740993 \<and>
   checkLimit (Some 9007199254740991) 0 (Some (- 2))
     = \<lparr>allowed = True, remaining = Some 9007199254740992,
        obligation = Some \<lparr>ob_type = ''consume'', ob_params = [(''amount'', - 2)]\<rparr>\<rparr>"
  by (simp add: checkLimit_def jsAdd_def jsSub_def roundDouble_def roundNat_def ulpOf.simps
      Let_def cong: let_weak_cong)

subsection \<open>The weighted resolver\<close>

lemma weightedLoop_count:
  "weightedLoop score results = score + int (length (filter (\<lambda>r. outcome r = ''allow'') results))"
  by (induction results arbitrary: score) auto

lemma createWeightedResolver_count:
  "createWeightedResolver weights results input facts
     = int (length (filter (\<lambda>r. outcome r = ''allow'') results))"
  by (simp add: createWeightedResolver_def weightedLoop_count)

text \<open>
  C5. The resolver returned by \<open>createWeightedResolver\<close> does not read the weight table:
  it counts the allow results. With the table \<open>{a: 5}\<close> and the single rule \<open>a\<close>
  allowing, it resolves to 1, while the sum of the weights of the allowing rules is 5.
\<close>

theorem createWeightedResolver_ignores_weights:
  "createWeightedResolver [''a'' \<mapsto> 5] [Allow ''ok'' None] input facts = 1 \<and>
   weightedScoreSpec [''a'' \<mapsto> 5] [''a''] [Allow ''ok'' None] = 5"
  by (simp add: createWeightedResolver_def)

subsection \<open>check and the override instant\<close>

lemma check_usage_calls:
  "getEntitlements adapter (actorId input) (action input) = Some e \<Longrightarrow>
   limit e = Some l \<Longrightarrow> window e = Some w \<Longrightarrow>
   snd (check lib adapter now now' input)
     = [(actorId input, action input, resolveWindow lib w now)]"
  by (simp add: check_def Let_def)

lemma check_usage_calls_lifetime:
  "getEntitlements adapter (actorId input) (action input) = Some e \<Longrightarrow>
   limit e = Some l \<Longrightarrow> window e = None \<Longrightarrow>
   snd (check lib adapter now now' input)
     = [(actorId input, action input, \<lparr>i_start = EPOCH, i_end = FAR_FUTURE\<rparr>)]"
  by (simp add: check_def Let_def resolveWindow_def)

text \<open>
  C4. \<open>check\<close> resolves the window at the clock reading, not at the override instant.
  With a limit of 10 over a sliding window of 1000 ms, the override instant 0 and the
  clock at 5000, \<open>getUsage\<close> is called with the interval from 4000 to 5000, while
  \<open>resolveWindow\<close> at the override instant is the interval from -1000 to 0.
\<close>

theorem check_ignores_at_override:
  "snd (check lib
          \<lparr>getEntitlements = (\<lambda>actor. [''api-calls'' \<mapsto>
               \<lparr>limit = Some 10, window = Some (Sliding (Milliseconds 1000))\<rparr>]),
           getUsage = (\<lambda>actor act interval. 0)\<rparr>
          5000 5000
          \<lparr>actorId = ''user1'', action = ''api-calls'', consume = None, at = Some 0\<rparr>)
     = [(''user1'', ''api-calls'', \<lparr>i_start = 4000, i_end = 5000\<rparr>)] \<and>
   resolveWindow lib (Sliding (Milliseconds 1000)) 0 = \<lparr>i_start = - 1000, i_end = 0\<rparr>"
  by (simp add: check_def Let_def resolveWindow_def durationToMs_def)

subsection \<open>Recurrence expansion\<close>

text \<open>
  The definitions that evaluate dates on concrete inputs. The simplifier unfolds them with
  the congruence rule \<open>let_weak_cong\<close>, which evaluates a bound value before its
  body.
\<close>

lemmas eval_dates =
  zonedDate_def zonedHour_def zonedMinute_def zonedSecond_def zonedWeekday_def DateUTC_def
  days_from_civil_def civil_from_days_def msPerDay_def plusUTCDays_def midnightUTC_def
  getUTCFullYear_def getUTCMonth_def getUTCDate_def getUTCDay_def ceilDiv_def jsRem_def Let_def

lemmas eval_recurrence =
  expandRecurrence_def expandLoop.simps shouldInclude_def isExcluded_def localTimeToUtc_def
  addDays_def getDayOfWeekInTimezone_def getDayOfMonthInTimezone_def getWeekNumber_def
  isInBiweeklyCycle_def isoWeekDistance_def mondayOfWeek_def

text \<open>
  C6. The biweekly test compares week numbers through \<open>year * 52 + week\<close> with the
  calendar year. Monday 2021-01-04 (ISO week 1 of 2021) is one ISO week after the anchor
  Monday 2020-12-28 (ISO week 53 of 2020), an odd distance, yet it counts as in the
  cycle, and \<open>expandRecurrence\<close> emits its occurrence.
\<close>

theorem biweekly_week_53_included:
  "isoWeekDistance 1609718400000 1609113600000 = 1 \<and>
   getWeekNumber 1609113600000 = 53 \<and> getWeekNumber 1609718400000 = 1 \<and>
   isInBiweeklyCycle 1609718400000 1609113600000 \<and>
   expandRecurrence (\<lambda>zone t. 0)
     \<lparr>frequency = biweekly, rr_days = Some [monday], rr_dayOfMonth = None,
      rr_startTime = (9, 0), rr_endTime = (10, 0), rr_timezone = ''UTC'',
      rr_start = Some 1609113600000, rr_until = None, rr_count = None, rr_exclude = None\<rparr>
     \<lparr>i_start = 1609718400000, i_end = 1609804800000\<rparr>
     = [\<lparr>i_start = 1609750800000, i_end = 1609754400000\<rparr>]"
  by (simp add: eval_dates eval_recurrence cong: let_weak_cong)

text \<open>
  C9. \<open>expandRecurrence\<close> does not compare the two ends of an occurrence. A daily rule
  from 10:00 to 09:00 in UTC, expanded over the day from 0 to 86400000, yields the
  interval that starts at 10:00 and ends at 09:00.
\<close>

theorem expandRecurrence_emits_inverted_interval:
  "expandRecurrence (\<lambda>zone t. 0)
     \<lparr>frequency = daily, rr_days = None, rr_dayOfMonth = None,
      rr_startTime = (10, 0), rr_endTime = (9, 0), rr_timezone = ''UTC'',
      rr_start = None, rr_until = None, rr_count = None, rr_exclude = None\<rparr>
     \<lparr>i_start = 0, i_end = 86400000\<rparr>
     = [\<lparr>i_start = 36000000, i_end = 32400000\<rparr>]"
  by (simp add: eval_dates eval_recurrence cong: let_weak_cong)

subsection \<open>Schedule expansion\<close>

lemmas eval_schedule =
  expandSchedule_def iterateDays_def iterateDaysFrom.simps ruleIntervalsOfDay_def
  removalsOfDay_def additionsOfDay_def isRuleEffective_def doesOverrideApply_def
  normalizeDate_def getDateStringInTimezone_def generateIntervalFromRule_def
  localTimeToUTC_def getTimezoneOffset_def dateStrLess_def clipToRange_def

lemmas eval_intervals =
  mergeIntervals_def subtractIntervals_def intersectIntervals_def compareStartEnd_def
  compareStart_def intervalsOverlap_def cloneInterval_def

lemma demo_days: "iterateDays \<lparr>i_start = 0, i_end = 86400000\<rparr> = [0]"
  by (simp add: iterateDays_def iterateDaysFrom.simps midnightUTC_def plusUTCDays_def msPerDay_def)

lemma demo_rule_intervals:
  "ruleIntervalsOfDay (\<lambda>zone t. 0) demoRules 0
     = [\<lparr>i_start = 32400000, i_end = 43200000\<rparr>, \<lparr>i_start = 39600000, i_end = 61200000\<rparr>]"
  apply (simp add: ruleIntervalsOfDay_def demoRules_def)
  apply (simp add: isRuleEffective_def generateIntervalFromRule_def localTimeToUTC_def
      getTimezoneOffset_def getDateStringInTimezone_def eval_dates cong: let_weak_cong)
  done

lemma demo_removals:
  "removalsOfDay (\<lambda>zone t. 0) demoOverrides ''UTC'' 0
     = [\<lparr>i_start = 36000000, i_end = 37800000\<rparr>]"
  apply (simp add: removalsOfDay_def demoOverrides_def)
  apply (simp add: doesOverrideApply_def normalizeDate_def localTimeToUTC_def
      getTimezoneOffset_def getDateStringInTimezone_def eval_dates cong: let_weak_cong)
  done

lemma demo_additions:
  "additionsOfDay (\<lambda>zone t. 0) demoOverrides ''UTC'' 0
     = [\<lparr>i_start = 64800000, i_end = 68400000\<rparr>]"
  apply (simp add: additionsOfDay_def demoOverrides_def)
  apply (simp add: doesOverrideApply_def normalizeDate_def localTimeToUTC_def
      getTimezoneOffset_def getDateStringInTimezone_def eval_dates cong: let_weak_cong)
  done

lemma demo_expandSchedule:
  "expandSchedule (\<lambda>zone t. 0) demoSchedule \<lparr>i_start = 0, i_end = 86400000\<rparr>
  = [\<lparr>i_start = 32400000, i_end = 36000000\<rparr>, \<lparr>i_start = 37800000, i_end = 61200000\<rparr>,
     \<lparr>i_start = 64800000, i_end = 68400000\<rparr>]"
proof -
  have r: "demoRules \<noteq> []" "sr_timezone (hd demoRules) = ''UTC''"
    by (simp_all add: demoRules_def)
  show ?thesis
    apply (simp add: expandSchedule_def demoSchedule_def demo_days r
        demo_rule_intervals demo_removals demo_additions cong: let_weak_cong)
    apply (simp add: eval_intervals clipToRange_def Let_def cong: let_weak_cong)
    done
qed

lemma chained_mono: "chained lo xs \<Longrightarrow> lo' \<le> lo \<Longrightarrow> chained lo' xs"
  by (cases xs) auto

lemma separated_chained: "separated (x # xs) \<Longrightarrow> lo \<le> i_start x \<Longrightarrow> chained lo (x # xs)"
  by (induction xs arbitrary: x lo) auto

lemma separated_ex_chained: "separated xs \<Longrightarrow> \<exists>lo. chained lo xs"
proof (cases xs)
  case Nil
  then show ?thesis by simp
next
  case (Cons x rest)
  assume "separated xs"
  then have "chained (i_start x) xs"
    unfolding Cons by (rule separated_chained) simp
  then show ?thesis ..
qed

lemma chained_append:
  "chained lo xs \<Longrightarrow> \<forall>x \<in> set xs. i_end x \<le> hi \<Longrightarrow> lo \<le> hi \<Longrightarrow> chained hi ys \<Longrightarrow>
   chained lo (xs @ ys)"
proof (induction xs arbitrary: lo)
  case Nil
  then show ?case by (simp add: chained_mono)
next
  case (Cons x xs)
  have "chained (i_end x) (xs @ ys)"
    using Cons.prems by (intro Cons.IH) auto
  then show ?case using Cons.prems by simp
qed

lemma chained_sorted_wrt:
  "chained lo xs \<Longrightarrow>
   sorted_wrt (\<lambda>a b. i_end a \<le> i_start b) xs \<and>
   (\<forall>x \<in> set xs. lo \<le> i_start x \<and> i_start x < i_end x)"
proof (induction xs arbitrary: lo)
  case Nil
  then show ?case by simp
next
  case (Cons x xs)
  then have ih: "sorted_wrt (\<lambda>a b. i_end a \<le> i_start b) xs"
    "\<forall>y \<in> set xs. i_end x \<le> i_start y \<and> i_start y < i_end y"
    by auto
  with Cons.prems show ?case by fastforce
qed

lemma subtractFromRemaining_chained:
  "chained lo rs \<Longrightarrow> i_start sub < i_end sub \<Longrightarrow> chained lo (subtractFromRemaining sub rs)"
proof (induction rs arbitrary: lo)
  case Nil
  then show ?case by simp
next
  case (Cons r rs)
  have ih: "chained (i_end r) (subtractFromRemaining sub rs)"
    using Cons.prems by (intro Cons.IH) auto
  have r: "lo \<le> i_start r" "i_start r < i_end r" using Cons.prems by auto
  show ?case
  proof (cases "intervalsOverlap r sub")
    case False
    then show ?thesis using ih r by simp
  next
    case True
    then have ov: "i_start r < i_end sub" "i_start sub < i_end r"
      by (auto simp: intervalsOverlap_def)
    have low: "chained lo (subtractFromRemaining sub rs)"
      using ih r by (auto intro: chained_mono)
    have mid: "chained (i_start sub) (subtractFromRemaining sub rs)"
      using ih ov by (auto intro: chained_mono)
    show ?thesis
      using True r ov low mid ih Cons.prems(2) by auto
  qed
qed

lemma subtractFromRemaining_bounded:
  "\<forall>x \<in> set rs. i_end x \<le> hi \<Longrightarrow> \<forall>x \<in> set (subtractFromRemaining sub rs). i_end x \<le> hi"
  by (induction rs) (auto simp: intervalsOverlap_def)

lemma subtractAll_chained:
  "chained lo rs \<Longrightarrow> \<forall>s \<in> set subs. i_start s < i_end s \<Longrightarrow> chained lo (subtractAll rs subs)"
  by (induction subs arbitrary: rs) (auto simp: subtractFromRemaining_chained)

lemma subtractAll_bounded:
  "\<forall>x \<in> set rs. i_end x \<le> hi \<Longrightarrow> \<forall>x \<in> set (subtractAll rs subs). i_end x \<le> hi"
proof (induction subs arbitrary: rs)
  case Nil
  then show ?case by simp
next
  case (Cons s subs)
  have "\<forall>x \<in> set (subtractFromRemaining s rs). i_end x \<le> hi"
    using Cons.prems by (rule subtractFromRemaining_bounded)
  then show ?case using Cons.IH by simp
qed

lemma subtract_pieces_chained:
  "separated M \<Longrightarrow> \<forall>s \<in> set subs. i_start s < i_end s \<Longrightarrow>
   (M \<noteq> [] \<longrightarrow> lo \<le> i_start (hd M)) \<Longrightarrow>
   chained lo (concat (map (\<lambda>interval. subtractAll [cloneInterval interval] subs) M))"
proof (induction M arbitrary: lo)
  case Nil
  then show ?case by simp
next
  case (Cons a rest)
  have a: "lo \<le> i_start a" "i_start a < i_end a" "separated rest"
    "rest \<noteq> [] \<longrightarrow> i_end a \<le> i_start (hd rest)"
    using Cons.prems by (auto simp: separated_Cons)
  have one: "chained lo (subtractAll [a] subs)"
    using a Cons.prems(2) by (intro subtractAll_chained) auto
  have bnd: "\<forall>x \<in> set (subtractAll [a] subs). i_end x \<le> i_end a"
    by (rule subtractAll_bounded) simp
  have rest: "chained (i_end a)
     (concat (map (\<lambda>interval. subtractAll [cloneInterval interval] subs) rest))"
    using a Cons.prems(2) by (intro Cons.IH) auto
  have "chained lo (subtractAll [a] subs @
     concat (map (\<lambda>interval. subtractAll [cloneInterval interval] subs) rest))"
    using one bnd _ rest by (rule chained_append) (use a in linarith)
  then show ?case by simp
qed

lemma chained_jsSort_id: "chained lo xs \<Longrightarrow> jsSort compareStart xs = xs"
proof -
  assume "chained lo xs"
  then have s: "sorted_wrt (\<lambda>a b. i_end a \<le> i_start b) xs"
    and n: "\<forall>x \<in> set xs. i_start x < i_end x"
    using chained_sorted_wrt by auto
  have "sorted_wrt (\<lambda>a b. compareStart a b \<le> 0) xs"
  proof (rule sorted_wrt_mono_rel[OF _ s])
    fix a b assume "a \<in> set xs" "b \<in> set xs" "i_end a \<le> i_start b"
    then have "i_start a < i_start b" using n by fastforce
    then show "compareStart a b \<le> 0" by (simp add: compareStart_def)
  qed
  then show ?thesis by (rule jsSort_sorted_id)
qed

lemma subtractIntervals_chained: "\<exists>lo. chained lo (subtractIntervals A B)"
proof (cases "A = [] \<or> B = []")
  case True
  then show ?thesis
    using separated_ex_chained[OF mergeIntervals_separated[of A]]
    by (auto simp: subtractIntervals_def)
next
  case False
  define M where "M = mergeIntervals A"
  define S where "S = mergeIntervals B"
  define R where "R = concat (map (\<lambda>interval. subtractAll [cloneInterval interval] S) M)"
  have sepM: "separated M" and sepS: "separated S"
    by (simp_all add: M_def S_def mergeIntervals_separated)
  have neS: "\<forall>s \<in> set S. i_start s < i_end s"
    using separated_sorted_wrt[OF sepS] by simp
  have ch: "chained (if M = [] then 0 else i_start (hd M)) R"
    unfolding R_def using sepM neS by (rule subtract_pieces_chained) simp
  then have "jsSort compareStart R = R" by (rule chained_jsSort_id)
  moreover have "subtractIntervals A B = jsSort compareStart R"
    using False by (simp add: subtractIntervals_def Let_def M_def S_def R_def)
  ultimately show ?thesis using ch by auto
qed

lemma clipToRange_chained: "chained lo xs \<Longrightarrow> chained lo (clipToRange rng xs)"
proof (induction xs arbitrary: lo)
  case Nil
  then show ?case by (simp add: clipToRange_def)
next
  case (Cons x xs)
  have ih: "chained (i_end x) (clipToRange rng xs)"
    using Cons.prems by (intro Cons.IH) auto
  have "chained lo (clipToRange rng xs)"
    using ih Cons.prems by (auto intro: chained_mono)
  moreover have "chained (min (i_end x) (i_end rng)) (clipToRange rng xs)"
    using ih by (auto intro: chained_mono)
  ultimately show ?case
    using Cons.prems by (auto simp: clipToRange_def)
qed

lemma expandSchedule_chained: "\<exists>lo. chained lo (expandSchedule tz schedule rng)"
proof -
  have m: "\<And>X. \<exists>lo. chained lo (mergeIntervals X)"
    by (rule separated_ex_chained) (rule mergeIntervals_separated)
  have c: "\<And>X. \<exists>lo. chained lo X \<Longrightarrow> \<exists>lo. chained lo (clipToRange rng X)"
    using clipToRange_chained by blast
  show ?thesis
    unfolding expandSchedule_def Let_def
    by (intro c) (auto intro: m subtractIntervals_chained)
qed

lemma chained_sorted_disjoint:
  "chained lo xs \<Longrightarrow>
   sorted (map i_start xs) \<and>
   (\<forall>i j. i < j \<and> j < length xs \<longrightarrow> i_end (xs ! i) \<le> i_start (xs ! j))"
proof -
  assume "chained lo xs"
  then have s: "sorted_wrt (\<lambda>a b. i_end a \<le> i_start b) xs"
    and n: "\<forall>x \<in> set xs. i_start x < i_end x"
    using chained_sorted_wrt by auto
  have "sorted_wrt (\<lambda>a b. i_start a \<le> i_start b) xs"
  proof (rule sorted_wrt_mono_rel[OF _ s])
    fix a b assume "a \<in> set xs" "b \<in> set xs" "i_end a \<le> i_start b"
    then show "i_start a \<le> i_start b" using n by fastforce
  qed
  then have "sorted (map i_start xs)" by (simp add: sorted_map)
  moreover have "\<forall>i j. i < j \<and> j < length xs \<longrightarrow> i_end (xs ! i) \<le> i_start (xs ! j)"
    using s by (auto simp: sorted_wrt_iff_nth_less)
  ultimately show ?thesis by simp
qed

text \<open>
  C10. For every schedule and range, the intervals returned by \<open>expandSchedule\<close> are
  sorted ascending by start and pairwise disjoint (an earlier one ends no later than a
  later one starts); each is non-empty and lies inside the range.
\<close>

theorem expandSchedule_sorted_disjoint:
  "sorted (map i_start (expandSchedule tz schedule rng)) \<and>
   (\<forall>i j. i < j \<and> j < length (expandSchedule tz schedule rng) \<longrightarrow>
      i_end (expandSchedule tz schedule rng ! i) \<le> i_start (expandSchedule tz schedule rng ! j)) \<and>
   (\<forall>x \<in> set (expandSchedule tz schedule rng).
      i_start x < i_end x \<and> i_start rng \<le> i_start x \<and> i_end x \<le> i_end rng)"
proof -
  obtain lo where "chained lo (expandSchedule tz schedule rng)"
    using expandSchedule_chained by blast
  then have "sorted (map i_start (expandSchedule tz schedule rng)) \<and>
   (\<forall>i j. i < j \<and> j < length (expandSchedule tz schedule rng) \<longrightarrow>
      i_end (expandSchedule tz schedule rng ! i) \<le> i_start (expandSchedule tz schedule rng ! j))"
    by (rule chained_sorted_disjoint)
  moreover have "\<forall>x \<in> set (expandSchedule tz schedule rng).
      i_start x < i_end x \<and> i_start rng \<le> i_start x \<and> i_end x \<le> i_end rng"
    by (auto simp: expandSchedule_def Let_def clipToRange_def)
  ultimately show ?thesis by simp
qed

theorem expandSchedule_sorted_disjoint_witness:
  "(0::nat) < 1 \<and>
   1 < length (expandSchedule (\<lambda>zone t. 0) demoSchedule \<lparr>i_start = 0, i_end = 86400000\<rparr>) \<and>
   \<lparr>i_start = 32400000, i_end = 36000000\<rparr>
     \<in> set (expandSchedule (\<lambda>zone t. 0) demoSchedule \<lparr>i_start = 0, i_end = 86400000\<rparr>) \<and>
   i_end (expandSchedule (\<lambda>zone t. 0) demoSchedule \<lparr>i_start = 0, i_end = 86400000\<rparr> ! 0)
     \<le> i_start (expandSchedule (\<lambda>zone t. 0) demoSchedule \<lparr>i_start = 0, i_end = 86400000\<rparr> ! 1) \<and>
   i_start \<lparr>i_start = 32400000, i_end = (36000000::int)\<rparr>
     < i_end \<lparr>i_start = 32400000, i_end = (36000000::int)\<rparr>"
proof -
  let ?E = "expandSchedule (\<lambda>zone t. 0) demoSchedule \<lparr>i_start = 0, i_end = 86400000\<rparr>"
  let ?x = "\<lparr>i_start = 32400000, i_end = (36000000::int)\<rparr>"
  have e: "?E = [\<lparr>i_start = 32400000, i_end = 36000000\<rparr>,
                 \<lparr>i_start = 37800000, i_end = 61200000\<rparr>,
                 \<lparr>i_start = 64800000, i_end = 68400000\<rparr>]"
    by (rule demo_expandSchedule)
  have h1: "(0::nat) < 1 \<and> 1 < length ?E" by (simp add: e)
  have h2: "?x \<in> set ?E" by (simp add: e)
  have t: "(\<forall>i j. i < j \<and> j < length ?E \<longrightarrow> i_end (?E ! i) \<le> i_start (?E ! j)) \<and>
           (\<forall>x \<in> set ?E. i_start x < i_end x \<and> 0 \<le> i_start x \<and> i_end x \<le> 86400000)"
    using expandSchedule_sorted_disjoint[of "\<lambda>zone t. 0" demoSchedule
        "\<lparr>i_start = 0, i_end = 86400000\<rparr>"] by simp
  from t h1 have "i_end (?E ! 0) \<le> i_start (?E ! 1)" by blast
  moreover from t h2 have "i_start ?x < i_end ?x" by blast
  ultimately show ?thesis using h1 h2 by blast
qed

subsection \<open>Slot generation\<close>




lemma capLoop_capAdmit:
  "capLoop mD mW dC wC cands allSlots cD cW = allSlots @ capAdmit mD mW dC wC cands cD cW"
  by (induction cands arbitrary: allSlots cD cW) (auto simp: Let_def)


lemma processHost_None:
  "hs_schedules hs (scheduleKeyOf (resolveHostConfig (in_eventType input) (hs_hostId hs))) = None
   \<Longrightarrow> processHost tz input now hs acc = Some acc"
  by (simp add: processHost_def Let_def)

lemma processHost_Some:
  "hs_schedules hs (scheduleKeyOf (resolveHostConfig (in_eventType input) (hs_hostId hs)))
     = Some schedule \<Longrightarrow>
   processHost tz input now hs acc =
     (case generateCandidateSlots
             (hostFreeIntervals tz input now
                (resolveHostConfig (in_eventType input) (hs_hostId hs)) (hs_hostId hs) schedule)
             (et_length (resolveHostConfig (in_eventType input) (hs_hostId hs)))
             (slotIntervalOf (resolveHostConfig (in_eventType input) (hs_hostId hs)))
             (hs_hostId hs)
             (bufferBeforeOf (resolveHostConfig (in_eventType input) (hs_hostId hs)))
             (bufferAfterOf (resolveHostConfig (in_eventType input) (hs_hostId hs))) of
        None \<Rightarrow> None
      | Some cands \<Rightarrow>
          Some (acc @
            (if et_maxPerDay (resolveHostConfig (in_eventType input) (hs_hostId hs)) \<noteq> None
                \<or> et_maxPerWeek (resolveHostConfig (in_eventType input) (hs_hostId hs)) \<noteq> None
             then capAdmit (et_maxPerDay (resolveHostConfig (in_eventType input) (hs_hostId hs)))
                    (et_maxPerWeek (resolveHostConfig (in_eventType input) (hs_hostId hs)))
                    (fst (countBookings (in_bookings input) (hs_hostId hs)
                            (et_id (in_eventType input))))
                    (snd (countBookings (in_bookings input) (hs_hostId hs)
                            (et_id (in_eventType input))))
                    cands Map.empty Map.empty
             else cands)))"
  by (simp add: processHost_def Let_def capLoop_capAdmit split: option.splits)





lemma getOr0_empty [simp]: "getOr0 Map.empty k = 0"
  by (simp add: getOr0_def)



















subsection \<open>The sample inputs evaluated\<close>



























subsection \<open>When the slot query returns\<close>

text \<open>
  With a positive step the placement loop ends, so the query returns on every input whose
  hosts all resolve to a positive \<open>slotInterval\<close>.
\<close>

lemma placeSlots_returns:
  "0 < step \<Longrightarrow> \<exists>out. placeSlots iEnd len step h bB bA st acc = Some out"
proof (induction "nat (iEnd - (st + len + bA) + 1)" arbitrary: st acc rule: less_induct)
  case less
  show ?case
  proof (cases "st + len + bA \<le> iEnd")
    case False
    then have "placeSlots iEnd len step h bB bA st acc = Some acc"
      by (subst placeSlots.simps) simp
    then show ?thesis by blast
  next
    case True
    define slot where "slot = \<lparr>s_hostId = h, s_start = st, s_end = st + len,
         s_bufferBefore = (if bB > 0 then Some \<lparr>i_start = st - bB, i_end = st\<rparr> else None),
         s_bufferAfter = (if bA > 0 then Some \<lparr>i_start = st + len, i_end = st + len + bA\<rparr>
                          else None)\<rparr>"
    have smaller: "nat (iEnd - (st + step + len + bA) + 1) < nat (iEnd - (st + len + bA) + 1)"
      using True less.prems by linarith
    obtain out where
      "placeSlots iEnd len step h bB bA (st + step) (acc @ [slot]) = Some out"
      using less.hyps[OF smaller less.prems] by blast
    moreover have "placeSlots iEnd len step h bB bA st acc
        = placeSlots iEnd len step h bB bA (st + step) (acc @ [slot])"
      using True by (subst placeSlots.simps) (simp add: Let_def slot_def)
    ultimately show ?thesis by simp
  qed
qed

lemma generateLoop_returns:
  "0 < step \<Longrightarrow> \<exists>out. generateLoop Fs len step h bB bA acc = Some out"
proof (induction Fs arbitrary: acc)
  case Nil
  then show ?case by simp
next
  case (Cons F Fs)
  obtain mid where "placeSlots (i_end F) len step h bB bA (i_start F + bB) acc = Some mid"
    using placeSlots_returns[OF Cons.prems] by blast
  then show ?case using Cons.IH[OF Cons.prems, of mid] by simp
qed

lemma processHost_returns:
  assumes "0 < slotIntervalOf (resolveHostConfig (in_eventType input) (hs_hostId hs))"
  shows "\<exists>out. processHost tz input now hs acc = Some out"
proof (cases "hs_schedules hs
                (scheduleKeyOf (resolveHostConfig (in_eventType input) (hs_hostId hs)))")
  case None
  then show ?thesis by (simp add: processHost_None)
next
  case (Some schedule)
  obtain cands where "generateCandidateSlots
       (hostFreeIntervals tz input now
          (resolveHostConfig (in_eventType input) (hs_hostId hs)) (hs_hostId hs) schedule)
       (et_length (resolveHostConfig (in_eventType input) (hs_hostId hs)))
       (slotIntervalOf (resolveHostConfig (in_eventType input) (hs_hostId hs)))
       (hs_hostId hs)
       (bufferBeforeOf (resolveHostConfig (in_eventType input) (hs_hostId hs)))
       (bufferAfterOf (resolveHostConfig (in_eventType input) (hs_hostId hs))) = Some cands"
    unfolding generateCandidateSlots_def using generateLoop_returns[OF assms] by blast
  then show ?thesis by (simp add: processHost_Some[OF Some])
qed

lemma hostsLoop_returns:
  "\<forall>hs \<in> set hosts. 0 < slotIntervalOf (resolveHostConfig (in_eventType input) (hs_hostId hs))
   \<Longrightarrow> \<exists>out. hostsLoop tz input now hosts acc = Some out"
proof (induction hosts arbitrary: acc)
  case Nil
  then show ?case by simp
next
  case (Cons h hosts)
  have "0 < slotIntervalOf (resolveHostConfig (in_eventType input) (hs_hostId h))"
    using Cons.prems by simp
  then obtain mid where "processHost tz input now h acc = Some mid"
    using processHost_returns[of input h tz now acc] by blast
  then show ?case using Cons.IH[of mid] Cons.prems by simp
qed

lemma getAvailableSlots_returns:
  "\<forall>hs \<in> set (in_hosts input).
      0 < slotIntervalOf (resolveHostConfig (in_eventType input) (hs_hostId hs))
   \<Longrightarrow> \<exists>slots. getAvailableSlots tz localeCompare input now = Some slots"
proof -
  assume "\<forall>hs \<in> set (in_hosts input).
      0 < slotIntervalOf (resolveHostConfig (in_eventType input) (hs_hostId hs))"
  then obtain allSlots where "hostsLoop tz input now (in_hosts input) [] = Some allSlots"
    using hostsLoop_returns by blast
  then show ?thesis by (simp add: getAvailableSlots_def)
qed

end
